theory Spec2Isabelle
  imports
    Complex_Main
    "HOL-Library.Char_ord"
    "HOL-Library.List_Lexorder"
    "HOL-Library.Product_Lexorder"
    "HOL-Library.Sublist"
begin

section \<open>The in-memory store of the publishing platform (db.js)\<close>

text \<open>
  The store is one global object \<open>state\<close> with one array per entity kind and a record of
  counters. Every operation of db.js is modelled as a function that takes the state and
  returns its result together with the new state; \<open>enqueueWrite\<close> only serialises the
  state to disk and has no effect on it, so it does not appear.

  Conventions of the embedding:
  \<^item> identifiers and counters are JavaScript integers, modelled as \<open>int\<close>; \<open>toInt\<close> is the
    identity on them;
  \<^item> strings are \<open>string\<close>;
  \<^item> \<open>null\<close> is \<open>None\<close>;
  \<^item> a \<open>created_at\<close> stamp of the running store is modelled by the instant it denotes
    (\<open>new Date(created_at).getTime()\<close>, milliseconds as \<open>int\<close>), and \<open>nowIso()\<close> is a
    parameter \<open>now\<close> of the operations that call it.
\<close>

subsection \<open>Constants\<close>

definition MAX_PAGE_SIZE :: int where
  "MAX_PAGE_SIZE = 30"

definition REACTIONS :: "string list" where
  "REACTIONS = [''like'', ''heart'', ''fire'', ''clap'']"

definition ROLES :: "string list" where
  "ROLES = [''user'', ''moderator'', ''admin'']"

definition USER_STATUS :: "string list" where
  "USER_STATUS = [''active'', ''suspended'', ''banned'']"

definition REPORT_STATUS :: "string list" where
  "REPORT_STATUS = [''open'', ''in_review'', ''resolved'', ''dismissed'']"

definition REPORT_TARGETS :: "string list" where
  "REPORT_TARGETS = [''post'', ''comment'', ''user'']"

definition isReaction :: "string \<Rightarrow> bool" where
  "isReaction v = (v \<in> set REACTIONS)"

subsection \<open>Array.prototype.slice and pagination\<close>

text \<open>
  \<open>items.slice(start, end)\<close> for integer arguments: a negative index counts from the end,
  both indices are clamped into \<open>[0, length]\<close>, and the result is empty when the end does
  not lie after the start.
\<close>

definition relIndex :: "int \<Rightarrow> int \<Rightarrow> int" where
  "relIndex len i = (if i < 0 then max (len + i) 0 else min i len)"

definition slice :: "'a list \<Rightarrow> int \<Rightarrow> int \<Rightarrow> 'a list" where
  "slice xs start end =
     (let len = int (length xs);
          k = relIndex len start;
          final = relIndex len end
      in take (nat (final - k)) (drop (nat k) xs))"

record 'a page_result =
  items :: "'a list"
  total :: int
  pages :: int
  page :: int
  pageSize :: int

text \<open>
  \<open>paginate(items, page, pageSize)\<close> for integer \<open>page\<close> and \<open>pageSize\<close>. \<open>pageSize || 10\<close>
  and \<open>page || 1\<close> replace the falsy integer 0 by the default; \<open>Math.ceil(total / size)\<close>
  is the ceiling of the exact quotient.
\<close>

definition paginate :: "'a list \<Rightarrow> int \<Rightarrow> int \<Rightarrow> 'a page_result" where
  "paginate xs pg pgSize =
     (let size = min (max (if pgSize = 0 then 10 else pgSize) 1) MAX_PAGE_SIZE;
          tot = int (length xs);
          pgs = max 1 \<lceil>(of_int tot :: rat) / of_int size\<rceil>;
          safePage = min (max (if pg = 0 then 1 else pg) 1) pgs;
          start = (safePage - 1) * size;
          records = slice xs start (start + size)
      in \<lparr> items = records, total = tot, pages = pgs, page = safePage, pageSize = size \<rparr>)"

subsection \<open>Entities of the running store\<close>

record user =
  u_id :: int
  u_username :: string
  u_email :: string
  u_password_hash :: string
  u_bio :: string
  u_avatar_url :: string
  u_created_at :: int
  u_role :: string
  u_status :: string
  u_email_verified :: bool
  u_verification_token_hash :: "string option"
  u_verification_expires_at :: "int option"
  u_reset_token_hash :: "string option"
  u_reset_expires_at :: "int option"

record category =
  cat_id :: int
  cat_name :: string
  cat_slug :: string
  cat_description :: string
  cat_sort_order :: int

record post =
  p_id :: int
  p_user_id :: int
  p_category_id :: int
  p_title :: string
  p_markdown_body :: string
  p_rendered_html :: string
  p_excerpt :: string
  p_reading_time_minutes :: int
  p_media_url :: string
  p_media_type :: string
  p_is_hidden :: bool
  p_hidden_reason :: string
  p_created_at :: int

record like =
  l_id :: int
  l_user_id :: int
  l_post_id :: int
  l_created_at :: int

record bookmark =
  b_id :: int
  b_user_id :: int
  b_post_id :: int
  b_created_at :: int

record comment =
  c_id :: int
  c_user_id :: int
  c_post_id :: int
  c_parent_comment_id :: "int option"
  c_depth :: int
  c_path :: string
  c_body :: string
  c_is_hidden :: bool
  c_hidden_reason :: string
  c_created_at :: int

record tag =
  t_id :: int
  t_slug :: string
  t_name :: string
  t_created_at :: int

record post_tag =
  pt_post_id :: int
  pt_tag_id :: int

record comment_reaction =
  cr_id :: int
  cr_comment_id :: int
  cr_user_id :: int
  cr_reaction_type :: string
  cr_created_at :: int

record report =
  r_id :: int
  r_reporter_user_id :: int
  r_target_type :: string
  r_target_id :: int
  r_reason_code :: string
  r_reason_text :: string
  r_status :: string
  r_assigned_to_user_id :: "int option"
  r_created_at :: int
  r_resolved_at :: "int option"

record moderation_action =
  m_id :: int
  m_actor_user_id :: int
  m_action_type :: string
  m_target_type :: string
  m_target_id :: int
  m_notes :: string
  m_created_at :: int

text \<open>The keys of \<open>state.counters\<close>.\<close>

datatype entity =
  Users | Categories | Posts | Likes | Comments | Tags | Bookmarks
  | Comment_reactions | Reports | Moderation_actions

record state =
  schema_version :: int
  counters :: "entity \<Rightarrow> int"
  users :: "user list"
  categories :: "category list"
  posts :: "post list"
  likes :: "like list"
  comments :: "comment list"
  tags :: "tag list"
  post_tags :: "post_tag list"
  bookmarks :: "bookmark list"
  comment_reactions :: "comment_reaction list"
  reports :: "report list"
  moderation_actions :: "moderation_action list"
  last_rebuild_at :: "int option"

text \<open>
  \<open>nextId(entity)\<close>: the counter is incremented and its new value returned
  (\<open>toInt(c) || 0\<close> is \<open>c\<close> for an integer counter).
\<close>

definition nextId :: "entity \<Rightarrow> state \<Rightarrow> int \<times> state" where
  "nextId e s = (let n = counters s e + 1 in (n, s\<lparr>counters := (counters s)(e := n)\<rparr>))"

text \<open>
  The source looks an object up with \<open>Array.prototype.find\<close> and then assigns to its
  fields in place. In the model the first element that satisfies the predicate is
  replaced in the list.
\<close>

fun update_first :: "('a \<Rightarrow> bool) \<Rightarrow> ('a \<Rightarrow> 'a) \<Rightarrow> 'a list \<Rightarrow> 'a list" where
  "update_first P f [] = []"
| "update_first P f (x # xs) = (if P x then f x # xs else x # update_first P f xs)"

subsection \<open>Roles and the visibility predicate\<close>

text \<open>
  The viewer handed to the read operations is \<open>toPublicUser(getUserById(viewerId))\<close> or
  \<open>null\<close>; \<open>canViewHidden\<close> reads its \<open>id\<close> and \<open>role\<close> only.
\<close>

record viewer =
  v_id :: int
  v_role :: string

definition isModeratorRole :: "string \<Rightarrow> bool" where
  "isModeratorRole r = (r = ''moderator'' \<or> r = ''admin'')"

definition canViewHidden :: "viewer option \<Rightarrow> int \<Rightarrow> bool" where
  "canViewHidden vw authorId =
     (case vw of
        None \<Rightarrow> False
      | Some v \<Rightarrow> if v_id v = authorId then True else isModeratorRole (v_role v))"

subsection \<open>Zero-padded identifiers and comment paths\<close>

text \<open>
  \<open>String(n)\<close> for an integer \<open>n\<close> is its decimal numeral (with a leading minus sign when
  negative); this is exact below \<open>10^21\<close>, far beyond any identifier the store hands out.
\<close>

fun digits :: "nat \<Rightarrow> string" where
  "digits n = (if n < 10 then [''0123456789'' ! n]
               else digits (n div 10) @ [''0123456789'' ! (n mod 10)])"

definition String_of_int :: "int \<Rightarrow> string" where
  "String_of_int n = (if n < 0 then CHR ''-'' # digits (nat (- n)) else digits (nat n))"

definition padStart :: "string \<Rightarrow> nat \<Rightarrow> char \<Rightarrow> string" where
  "padStart str n c = replicate (n - length str) c @ str"

text \<open>\<open>padId(value)\<close> for an integer: \<open>String(Number(value) || 0).padStart(10, "0")\<close>.\<close>

definition padId :: "int \<Rightarrow> string" where
  "padId v = padStart (String_of_int v) 10 CHR ''0''"

definition getCommentRawById :: "state \<Rightarrow> int \<Rightarrow> comment option" where
  "getCommentRawById s commentId = find (\<lambda>c. c_id c = commentId) (comments s)"

definition buildCommentPath :: "comment option \<Rightarrow> int \<Rightarrow> string" where
  "buildCommentPath parent newCommentId =
     (case parent of
        None \<Rightarrow> padId newCommentId
      | Some p \<Rightarrow> c_path p @ ''.'' @ padId newCommentId)"

subsection \<open>Creating, hiding and restoring comments\<close>

text \<open>
  \<open>addComment({user_id, post_id, body, parent_comment_id})\<close>. The parent id is \<open>None\<close> for
  \<open>null\<close>; the test \<open>parent_comment_id ? \<dots> : null\<close> also treats the id 0 as absent. The
  result is \<open>None\<close> for \<open>null\<close>. \<open>now\<close> stands for \<open>nowIso()\<close>.
\<close>

definition addComment ::
  "int \<Rightarrow> state \<Rightarrow> int \<Rightarrow> int \<Rightarrow> string \<Rightarrow> int option \<Rightarrow> comment option \<times> state" where
  "addComment now s user_id post_id body parent_comment_id =
     (let parent = (case parent_comment_id of
                      None \<Rightarrow> None
                    | Some pid \<Rightarrow> if pid = 0 then None else getCommentRawById s pid)
      in if (case parent of None \<Rightarrow> False | Some p \<Rightarrow> c_post_id p \<noteq> post_id)
         then (None, s)
         else
           (let (newId, s1) = nextId Comments s;
                depth = (case parent of None \<Rightarrow> 0 | Some p \<Rightarrow> c_depth p + 1);
                pathValue = buildCommentPath parent newId;
                cmt = \<lparr> c_id = newId, c_user_id = user_id, c_post_id = post_id,
                        c_parent_comment_id = (case parent of None \<Rightarrow> None | Some p \<Rightarrow> Some (c_id p)),
                        c_depth = depth, c_path = pathValue, c_body = body,
                        c_is_hidden = False, c_hidden_reason = [], c_created_at = now \<rparr>
            in (Some cmt, s1\<lparr>comments := comments s1 @ [cmt]\<rparr>)))"

definition hideComment :: "state \<Rightarrow> int \<Rightarrow> string \<Rightarrow> comment option \<times> state" where
  "hideComment s commentId reason =
     (case getCommentRawById s commentId of
        None \<Rightarrow> (None, s)
      | Some c \<Rightarrow>
          (Some (c\<lparr>c_is_hidden := True, c_hidden_reason := reason\<rparr>),
           s\<lparr>comments := update_first (\<lambda>c. c_id c = commentId)
                 (\<lambda>c. c\<lparr>c_is_hidden := True, c_hidden_reason := reason\<rparr>) (comments s)\<rparr>))"

definition unhideComment :: "state \<Rightarrow> int \<Rightarrow> comment option \<times> state" where
  "unhideComment s commentId =
     (case getCommentRawById s commentId of
        None \<Rightarrow> (None, s)
      | Some c \<Rightarrow>
          (Some (c\<lparr>c_is_hidden := False, c_hidden_reason := []\<rparr>),
           s\<lparr>comments := update_first (\<lambda>c. c_id c = commentId)
                 (\<lambda>c. c\<lparr>c_is_hidden := False, c_hidden_reason := []\<rparr>) (comments s)\<rparr>))"

subsection \<open>The empty store and example stores\<close>

definition baseState :: state where
  "baseState =
     \<lparr> schema_version = 2, counters = (\<lambda>_. 0), users = [], categories = [], posts = [],
       likes = [], comments = [], tags = [], post_tags = [], bookmarks = [],
       comment_reactions = [], reports = [], moderation_actions = [], last_rebuild_at = None \<rparr>"

text \<open>
  The fields of a comment other than the moderation flag and its reason.
\<close>

definition comment_core ::
  "comment \<Rightarrow> int \<times> int \<times> int \<times> int option \<times> int \<times> string \<times> string \<times> int" where
  "comment_core c =
     (c_id c, c_user_id c, c_post_id c, c_parent_comment_id c, c_depth c, c_path c, c_body c,
      c_created_at c)"

text \<open>
  A thread on post 1: user 2 wrote the root comment 1 and user 3 replied to it with
  comment 2.
\<close>

definition root1 :: comment where
  "root1 = \<lparr> c_id = 1, c_user_id = 2, c_post_id = 1, c_parent_comment_id = None, c_depth = 0,
             c_path = ''0000000001'', c_body = ''first'', c_is_hidden = False,
             c_hidden_reason = [], c_created_at = 1000 \<rparr>"

definition reply2 :: comment where
  "reply2 = \<lparr> c_id = 2, c_user_id = 3, c_post_id = 1, c_parent_comment_id = Some 1, c_depth = 1,
              c_path = ''0000000001.0000000002'', c_body = ''second'', c_is_hidden = False,
              c_hidden_reason = [], c_created_at = 2000 \<rparr>"

definition thread_state :: state where
  "thread_state = baseState\<lparr> counters := (\<lambda>_. 0)(Comments := 2), comments := [root1, reply2] \<rparr>"

text \<open>
  A store whose only comment has the id 0, as it is after loading a backing file in which
  the comment was stored without an id (\<open>toInt(undefined)\<close> is 0).
\<close>

definition zero_comment :: comment where
  "zero_comment = \<lparr> c_id = 0, c_user_id = 2, c_post_id = 1, c_parent_comment_id = None,
                    c_depth = 0, c_path = ''0000000000'', c_body = ''text'', c_is_hidden = False,
                    c_hidden_reason = [], c_created_at = 1000 \<rparr>"

definition zero_id_state :: state where
  "zero_id_state = baseState\<lparr> comments := [zero_comment] \<rparr>"

subsection \<open>Visible comments of a post\<close>

text \<open>
  \<open>getVisibleCommentsForPost(postId, viewer)\<close>. The comments of the post are sorted by
  path, and by creation time where two paths are equal; \<open>Array.prototype.sort\<close> is stable.
  \<open>localeCompare\<close> is modelled by the lexicographic order on character codes, which agrees
  with it on the digits and dots that paths are made of. The loop keeps the array
  \<open>hiddenPrefixes\<close> and the array \<open>visible\<close>; \<open>hiddenStep\<close> is its body.
\<close>

definition hiddenStep ::
  "viewer option \<Rightarrow> string list \<times> comment list \<Rightarrow> comment \<Rightarrow> string list \<times> comment list" where
  "hiddenStep vw acc cmt =
     (let hiddenPrefixes = fst acc; visible = snd acc
      in if list_ex (\<lambda>pre. prefix pre (c_path cmt)) hiddenPrefixes then (hiddenPrefixes, visible)
         else if c_is_hidden cmt \<and> \<not> canViewHidden vw (c_user_id cmt)
              then (hiddenPrefixes @ [c_path cmt @ ''.''], visible)
              else (hiddenPrefixes, visible @ [cmt]))"

definition getVisibleCommentsForPost :: "state \<Rightarrow> int \<Rightarrow> viewer option \<Rightarrow> comment list" where
  "getVisibleCommentsForPost s postId vw =
     snd (foldl (hiddenStep vw) ([], [])
            (sort_key (\<lambda>c. (c_path c, c_created_at c))
               (filter (\<lambda>c. c_post_id c = postId) (comments s))))"

text \<open>
  A comment that is hidden from the viewer, and a comment that lies below such a comment
  of the same post.
\<close>

definition hiddenFrom :: "viewer option \<Rightarrow> comment \<Rightarrow> bool" where
  "hiddenFrom vw c = (c_is_hidden c \<and> \<not> canViewHidden vw (c_user_id c))"

definition hasHiddenAncestor :: "state \<Rightarrow> int \<Rightarrow> viewer option \<Rightarrow> comment \<Rightarrow> bool" where
  "hasHiddenAncestor s postId vw c =
     list_ex (\<lambda>a. c_post_id a = postId \<and> hiddenFrom vw a \<and> prefix (c_path a @ ''.'') (c_path c))
       (comments s)"

subsection \<open>Likes, bookmarks and comment reactions\<close>

definition hasLike :: "state \<Rightarrow> int \<Rightarrow> int \<Rightarrow> bool" where
  "hasLike s userId postId = list_ex (\<lambda>l. l_user_id l = userId \<and> l_post_id l = postId) (likes s)"

definition toggleLike :: "int \<Rightarrow> state \<Rightarrow> int \<Rightarrow> int \<Rightarrow> bool \<times> state" where
  "toggleLike now s userId postId =
     (case find (\<lambda>l. l_user_id l = userId \<and> l_post_id l = postId) (likes s) of
        Some existing \<Rightarrow> (False, s\<lparr>likes := filter (\<lambda>l. l_id l \<noteq> l_id existing) (likes s)\<rparr>)
      | None \<Rightarrow>
          (let (newId, s1) = nextId Likes s
           in (True, s1\<lparr>likes := likes s1 @
                 [\<lparr> l_id = newId, l_user_id = userId, l_post_id = postId, l_created_at = now \<rparr>]\<rparr>)))"

definition hasBookmark :: "state \<Rightarrow> int \<Rightarrow> int \<Rightarrow> bool" where
  "hasBookmark s userId postId =
     list_ex (\<lambda>b. b_user_id b = userId \<and> b_post_id b = postId) (bookmarks s)"

definition toggleBookmark :: "int \<Rightarrow> state \<Rightarrow> int \<Rightarrow> int \<Rightarrow> bool \<times> state" where
  "toggleBookmark now s userId postId =
     (case find (\<lambda>b. b_user_id b = userId \<and> b_post_id b = postId) (bookmarks s) of
        Some existing \<Rightarrow>
          (False, s\<lparr>bookmarks := filter (\<lambda>b. b_id b \<noteq> b_id existing) (bookmarks s)\<rparr>)
      | None \<Rightarrow>
          (let (newId, s1) = nextId Bookmarks s
           in (True, s1\<lparr>bookmarks := bookmarks s1 @
                 [\<lparr> b_id = newId, b_user_id = userId, b_post_id = postId, b_created_at = now \<rparr>]\<rparr>)))"

text \<open>
  \<open>toggleCommentReaction\<close> returns \<open>null\<close> (here \<open>None\<close>) for a reaction type outside
  \<open>REACTIONS\<close>. \<open>hasReaction\<close> is the test that the function itself makes with \<open>find\<close>.
\<close>

definition hasReaction :: "state \<Rightarrow> int \<Rightarrow> int \<Rightarrow> string \<Rightarrow> bool" where
  "hasReaction s userId commentId reactionType =
     list_ex (\<lambda>r. cr_comment_id r = commentId \<and> cr_user_id r = userId
                 \<and> cr_reaction_type r = reactionType) (comment_reactions s)"

definition toggleCommentReaction ::
  "int \<Rightarrow> state \<Rightarrow> int \<Rightarrow> int \<Rightarrow> string \<Rightarrow> bool option \<times> state" where
  "toggleCommentReaction now s userId commentId reactionType =
     (if \<not> isReaction reactionType then (None, s)
      else
        (case find (\<lambda>r. cr_comment_id r = commentId \<and> cr_user_id r = userId
                        \<and> cr_reaction_type r = reactionType) (comment_reactions s) of
           Some existing \<Rightarrow>
             (Some False,
              s\<lparr>comment_reactions := filter (\<lambda>r. cr_id r \<noteq> cr_id existing) (comment_reactions s)\<rparr>)
         | None \<Rightarrow>
             (let (newId, s1) = nextId Comment_reactions s
              in (Some True, s1\<lparr>comment_reactions := comment_reactions s1 @
                    [\<lparr> cr_id = newId, cr_comment_id = commentId, cr_user_id = userId,
                       cr_reaction_type = reactionType, cr_created_at = now \<rparr>]\<rparr>))))"

text \<open>The number of rows of a user for a target.\<close>

definition likeRows :: "state \<Rightarrow> int \<Rightarrow> int \<Rightarrow> nat" where
  "likeRows s userId postId =
     length (filter (\<lambda>l. l_user_id l = userId \<and> l_post_id l = postId) (likes s))"

definition bookmarkRows :: "state \<Rightarrow> int \<Rightarrow> int \<Rightarrow> nat" where
  "bookmarkRows s userId postId =
     length (filter (\<lambda>b. b_user_id b = userId \<and> b_post_id b = postId) (bookmarks s))"

definition reactionRows :: "state \<Rightarrow> int \<Rightarrow> int \<Rightarrow> string \<Rightarrow> nat" where
  "reactionRows s userId commentId reactionType =
     length (filter (\<lambda>r. cr_comment_id r = commentId \<and> cr_user_id r = userId
                        \<and> cr_reaction_type r = reactionType) (comment_reactions s))"

subsection \<open>Reports\<close>

definition getReportById :: "state \<Rightarrow> int \<Rightarrow> report option" where
  "getReportById s reportId = find (\<lambda>r. r_id r = reportId) (reports s)"

definition assignReport :: "state \<Rightarrow> int \<Rightarrow> int \<Rightarrow> report option \<times> state" where
  "assignReport s reportId moderatorId =
     (let assign = (\<lambda>r. r\<lparr> r_assigned_to_user_id := Some moderatorId,
                           r_status := (if r_status r = ''open'' then ''in_review'' else r_status r) \<rparr>)
      in case getReportById s reportId of
           None \<Rightarrow> (None, s)
         | Some r \<Rightarrow>
             (Some (assign r),
              s\<lparr>reports := update_first (\<lambda>r. r_id r = reportId) assign (reports s)\<rparr>))"

definition resolveReport :: "int \<Rightarrow> state \<Rightarrow> int \<Rightarrow> string \<Rightarrow> report option \<times> state" where
  "resolveReport now s reportId status =
     (let resolve = (\<lambda>r. r\<lparr> r_status := status, r_resolved_at := Some now \<rparr>)
      in case getReportById s reportId of
           None \<Rightarrow> (None, s)
         | Some r \<Rightarrow>
             if status \<notin> set [''resolved'', ''dismissed''] then (None, s)
             else (Some (resolve r),
                   s\<lparr>reports := update_first (\<lambda>r. r_id r = reportId) resolve (reports s)\<rparr>))"

text \<open>
  A call of one of the two operations, and a sequence of such calls applied to a store.
\<close>

datatype report_call = Assign int int | Resolve int int string

fun report_step :: "state \<Rightarrow> report_call \<Rightarrow> state" where
  "report_step s (Assign reportId moderatorId) = snd (assignReport s reportId moderatorId)"
| "report_step s (Resolve now reportId status) = snd (resolveReport now s reportId status)"

definition report_run :: "state \<Rightarrow> report_call list \<Rightarrow> state" where
  "report_run s calls = foldl report_step s calls"

text \<open>The position of a status in \<open>open < in_review < {resolved, dismissed}\<close>.\<close>

definition status_rank :: "string \<Rightarrow> nat" where
  "status_rank st =
     (if st = ''in_review'' then 1
      else if st = ''resolved'' \<or> st = ''dismissed'' then 2
      else 0)"

subsection \<open>Trending posts\<close>

definition getUserById :: "state \<Rightarrow> int \<Rightarrow> user option" where
  "getUserById s userId = find (\<lambda>u. u_id u = userId) (users s)"

definition countLikes :: "state \<Rightarrow> int \<Rightarrow> int" where
  "countLikes s postId = int (length (filter (\<lambda>l. l_post_id l = postId) (likes s)))"

record trending_item =
  ti_id :: int
  ti_title :: string
  ti_author_username :: string
  ti_like_count :: int
  ti_created_at :: int

record trending_row =
  tr_id :: int
  tr_title :: string
  tr_author_username :: string
  tr_like_count :: int

definition trendingItem :: "state \<Rightarrow> post \<Rightarrow> trending_item" where
  "trendingItem s p =
     \<lparr> ti_id = p_id p, ti_title = p_title p,
       ti_author_username = (case getUserById s (p_user_id p) of
                               None \<Rightarrow> ''deleted'' | Some author \<Rightarrow> u_username author),
       ti_like_count = countLikes s (p_id p), ti_created_at = p_created_at p \<rparr>"

definition trendingRow :: "trending_item \<Rightarrow> trending_row" where
  "trendingRow t =
     \<lparr> tr_id = ti_id t, tr_title = ti_title t, tr_author_username = ti_author_username t,
       tr_like_count = ti_like_count t \<rparr>"

text \<open>
  \<open>getTrendingPosts(limit)\<close>: the comparator orders by like count, then by creation time,
  both descending; the stable sort by the key \<open>(- like_count, - created_at)\<close> is the same
  order.
\<close>

definition getTrendingPosts :: "state \<Rightarrow> int \<Rightarrow> trending_row list" where
  "getTrendingPosts s limit =
     map trendingRow
       (slice (sort_key (\<lambda>t. (- ti_like_count t, - ti_created_at t))
                 (map (trendingItem s) (filter (\<lambda>p. \<not> p_is_hidden p) (posts s))))
          0 limit)"

text \<open>
  A store in which user 7 holds two like rows for post 1, as it is after loading a
  backing file that contains both rows (the migration keeps every like row with
  positive ids).
\<close>

definition double_like_state :: state where
  "double_like_state =
     baseState\<lparr> counters := (\<lambda>_. 0)(Likes := 2),
                likes := [\<lparr> l_id = 1, l_user_id = 7, l_post_id = 1, l_created_at = 1000 \<rparr>,
                          \<lparr> l_id = 2, l_user_id = 7, l_post_id = 1, l_created_at = 2000 \<rparr>] \<rparr>"

text \<open>A store with one open report (id 1) filed by user 3 against post 5.\<close>

definition report1 :: report where
  "report1 = \<lparr> r_id = 1, r_reporter_user_id = 3, r_target_type = ''post'', r_target_id = 5,
               r_reason_code = ''spam'', r_reason_text = [], r_status = ''open'',
               r_assigned_to_user_id = None, r_created_at = 1000, r_resolved_at = None \<rparr>"

definition report_state :: state where
  "report_state = baseState\<lparr> counters := (\<lambda>_. 0)(Reports := 1), reports := [report1] \<rparr>"

text \<open>
  A store with two posts of user 2: post 1 is hidden and has two likes, post 2 is visible
  and has none.
\<close>

definition ann :: user where
  "ann = \<lparr> u_id = 2, u_username = ''ann'', u_email = ''ann@example.org'', u_password_hash = ''x'',
           u_bio = [], u_avatar_url = [], u_created_at = 500, u_role = ''user'',
           u_status = ''active'', u_email_verified = True, u_verification_token_hash = None,
           u_verification_expires_at = None, u_reset_token_hash = None,
           u_reset_expires_at = None \<rparr>"

definition post1 :: post where
  "post1 = \<lparr> p_id = 1, p_user_id = 2, p_category_id = 1, p_title = ''Hidden reel'',
             p_markdown_body = ''text'', p_rendered_html = ''text'', p_excerpt = ''text'',
             p_reading_time_minutes = 1, p_media_url = [], p_media_type = ''none'',
             p_is_hidden = True, p_hidden_reason = ''spam'', p_created_at = 1000 \<rparr>"

definition post2 :: post where
  "post2 = \<lparr> p_id = 2, p_user_id = 2, p_category_id = 1, p_title = ''Street portraits'',
             p_markdown_body = ''text'', p_rendered_html = ''text'', p_excerpt = ''text'',
             p_reading_time_minutes = 1, p_media_url = [], p_media_type = ''none'',
             p_is_hidden = False, p_hidden_reason = [], p_created_at = 2000 \<rparr>"

definition feed_state :: state where
  "feed_state =
     baseState\<lparr> counters := (\<lambda>_. 0)(Users := 2, Posts := 2, Likes := 2),
                users := [ann], posts := [post1, post2],
                likes := [\<lparr> l_id = 1, l_user_id = 7, l_post_id = 1, l_created_at = 1100 \<rparr>,
                          \<lparr> l_id = 2, l_user_id = 8, l_post_id = 1, l_created_at = 1200 \<rparr>] \<rparr>"

text \<open>
  The thread after a moderator has hidden both comments, and the author of the reply
  (user 3, an ordinary user) as viewer.
\<close>

definition hidden_thread_state :: state where
  "hidden_thread_state =
     thread_state\<lparr> comments := [root1\<lparr> c_is_hidden := True, c_hidden_reason := ''spam'' \<rparr>,
                                reply2\<lparr> c_is_hidden := True, c_hidden_reason := ''spam'' \<rparr>] \<rparr>"

definition viewer3 :: viewer where
  "viewer3 = \<lparr> v_id = 3, v_role = ''user'' \<rparr>"

text \<open>The thread after a moderator has hidden the reply only.\<close>

definition reply_hidden_state :: state where
  "reply_hidden_state =
     thread_state\<lparr> comments := [root1, reply2\<lparr> c_is_hidden := True, c_hidden_reason := ''spam'' \<rparr>] \<rparr>"

section \<open>The stored snapshot and its migration (migrateState)\<close>

subsection \<open>String helpers\<close>

text \<open>
  Strings of the stored snapshot are modelled as ASCII strings: \<open>toLowerCase\<close> maps
  \<open>A\<close>..\<open>Z\<close> to \<open>a\<close>..\<open>z\<close>, and the white space of \<open>trim\<close> and of the class \<open>\s\<close> is tab,
  line feed, vertical tab, form feed, carriage return and space.
\<close>

definition toLowerCase_char :: "char \<Rightarrow> char" where
  "toLowerCase_char c =
     (if CHR ''A'' \<le> c \<and> c \<le> CHR ''Z'' then char_of (of_char c + (32::nat)) else c)"

definition toLowerCase :: "string \<Rightarrow> string" where
  "toLowerCase s = map toLowerCase_char s"

definition is_space :: "char \<Rightarrow> bool" where
  "is_space c = (c \<in> set [CHR 0x09, CHR 0x0A, CHR 0x0B, CHR 0x0C, CHR 0x0D, CHR '' ''])"

text \<open>The class \<open>[a-z0-9]\<close>.\<close>

definition is_alnum :: "char \<Rightarrow> bool" where
  "is_alnum c = (CHR ''a'' \<le> c \<and> c \<le> CHR ''z'' \<or> CHR ''0'' \<le> c \<and> c \<le> CHR ''9'')"

text \<open>
  \<open>strip_both P\<close> removes the characters that satisfy \<open>P\<close> from both ends of a string:
  \<open>trim()\<close> with \<open>P\<close> the white space, \<open>replace(/^-+|-+$/g, "")\<close> with \<open>P\<close> the dash.
\<close>

definition strip_both :: "(char \<Rightarrow> bool) \<Rightarrow> string \<Rightarrow> string" where
  "strip_both P s = rev (dropWhile P (rev (dropWhile P s)))"

definition trim :: "string \<Rightarrow> string" where
  "trim s = strip_both is_space s"

text \<open>
  \<open>replace_runs P r\<close> replaces every maximal run of characters that satisfy \<open>P\<close> by the
  single character \<open>r\<close>: \<open>replace(/[^a-z0-9]+/g, "-")\<close> and \<open>replace(/\s+/g, " ")\<close>.
\<close>

function replace_runs :: "(char \<Rightarrow> bool) \<Rightarrow> char \<Rightarrow> string \<Rightarrow> string" where
  "replace_runs P r [] = []"
| "replace_runs P r (c # cs) =
     (if P c then r # replace_runs P r (dropWhile P cs) else c # replace_runs P r cs)"
  by pat_completeness auto
termination
  by (relation "measure (\<lambda>(P, r, s). length s)") (auto simp: length_dropWhile_le less_Suc_eq_le)

definition slugify :: "string \<Rightarrow> string" where
  "slugify input =
     strip_both (\<lambda>c. c = CHR ''-'')
       (replace_runs (\<lambda>c. \<not> is_alnum c) CHR ''-'' (trim (toLowerCase input)))"

definition normalizeText :: "string \<Rightarrow> string" where
  "normalizeText input = trim (toLowerCase input)"

text \<open>\<open>summarize(text)\<close> with the default \<open>maxLength = 220\<close>.\<close>

definition summarize :: "string \<Rightarrow> string" where
  "summarize text =
     (if text = [] then []
      else
        (let cleaned = trim (replace_runs is_space CHR '' '' text)
         in if length cleaned \<le> 220 then cleaned else take 220 cleaned @ ''...''))"

text \<open>
  The number of non-empty pieces of \<open>split(/\s+/)\<close>, that is, of maximal runs of characters
  other than white space.
\<close>

function count_words :: "string \<Rightarrow> nat" where
  "count_words [] = 0"
| "count_words (c # cs) =
     (if is_space c then count_words cs
      else Suc (count_words (dropWhile (\<lambda>c. \<not> is_space c) cs)))"
  by pat_completeness auto
termination
  by (relation "measure length") (auto simp: length_dropWhile_le less_Suc_eq_le)

definition computeReadingTime :: "string \<Rightarrow> int" where
  "computeReadingTime markdownBody =
     (let wds = count_words
                  (map (\<lambda>c. if c \<in> set ''`*_#>-[]()!'' then CHR '' '' else c) markdownBody)
      in max 1 \<lceil>(of_nat wds :: rat) / 200\<rceil>)"

subsection \<open>Stored values\<close>

text \<open>
  A snapshot is what \<open>JSON.parse\<close> and \<open>sanitizeState\<close> hand to \<open>migrateState\<close>: arrays of
  objects. Every field of a stored object is modelled as absent (\<open>None\<close>: \<open>undefined\<close> or
  \<open>null\<close>) or as a value of the JSON type of the field: a number (a rational), a string or
  a boolean. The helpers below are the coercions that \<open>migrateState\<close> applies, on these
  values.
\<close>

definition isInteger :: "rat \<Rightarrow> bool" where
  "isInteger r = (of_int \<lfloor>r\<rfloor> = r)"

text \<open>\<open>toInt(value)\<close>: \<open>Number(undefined)\<close> is \<open>NaN\<close> and \<open>Number(null)\<close> is 0; both give 0.\<close>

definition toInt :: "rat option \<Rightarrow> int" where
  "toInt v = (case v of None \<Rightarrow> 0 | Some r \<Rightarrow> if isInteger r then \<lfloor>r\<rfloor> else 0)"

text \<open>The number that holds an integer.\<close>

definition num :: "int \<Rightarrow> rat option" where
  "num n = Some (of_int n)"

text \<open>Truthiness of a number field: absent and 0 are falsy.\<close>

definition truthyNum :: "rat option \<Rightarrow> bool" where
  "truthyNum v = (case v of None \<Rightarrow> False | Some r \<Rightarrow> r \<noteq> 0)"

text \<open>\<open>x || d\<close> for a string field: absent and the empty string are falsy.\<close>

definition orStr :: "string option \<Rightarrow> string \<Rightarrow> string" where
  "orStr x d = (case x of None \<Rightarrow> d | Some s \<Rightarrow> if s = [] then d else s)"

text \<open>\<open>x || null\<close> for a string field.\<close>

definition orNull :: "string option \<Rightarrow> string option" where
  "orNull x = (case x of None \<Rightarrow> None | Some s \<Rightarrow> if s = [] then None else Some s)"

text \<open>\<open>Number(x || d)\<close> for a number field.\<close>

definition orNum :: "rat option \<Rightarrow> rat \<Rightarrow> rat" where
  "orNum x d = (case x of None \<Rightarrow> d | Some r \<Rightarrow> if r = 0 then d else r)"

text \<open>\<open>x ? toInt(x) : null\<close> for a number field.\<close>

definition intOrNull :: "rat option \<Rightarrow> rat option" where
  "intOrNull x = (if truthyNum x then num (toInt x) else None)"

text \<open>\<open>Boolean(x)\<close> for a boolean field.\<close>

definition toBoolean :: "bool option \<Rightarrow> bool" where
  "toBoolean x = (x = Some True)"

definition isRole :: "string \<Rightarrow> bool" where
  "isRole v = (v \<in> set ROLES)"

definition isUserStatus :: "string \<Rightarrow> bool" where
  "isUserStatus v = (v \<in> set USER_STATUS)"

definition isReportStatus :: "string \<Rightarrow> bool" where
  "isReportStatus v = (v \<in> set REPORT_STATUS)"

definition isReportTarget :: "string \<Rightarrow> bool" where
  "isReportTarget v = (v \<in> set REPORT_TARGETS)"

text \<open>\<open>ok(x) ? x : d\<close> for a string field and a membership test \<open>ok\<close>.\<close>

definition keepIf :: "(string \<Rightarrow> bool) \<Rightarrow> string option \<Rightarrow> string \<Rightarrow> string" where
  "keepIf ok x d = (case x of None \<Rightarrow> d | Some s \<Rightarrow> if ok s then s else d)"

subsection \<open>Stored entities\<close>

record stored_user =
  su_id :: "rat option"
  su_username :: "string option"
  su_email :: "string option"
  su_password_hash :: "string option"
  su_bio :: "string option"
  su_avatar_url :: "string option"
  su_created_at :: "string option"
  su_role :: "string option"
  su_status :: "string option"
  su_email_verified :: "bool option"
  su_verification_token_hash :: "string option"
  su_verification_expires_at :: "string option"
  su_reset_token_hash :: "string option"
  su_reset_expires_at :: "string option"

record stored_category =
  sc_id :: "rat option"
  sc_name :: "string option"
  sc_slug :: "string option"
  sc_description :: "string option"
  sc_sort_order :: "rat option"

text \<open>\<open>sp_body\<close> is the field \<open>body\<close> of version 1, which the migration reads and keeps.\<close>

record stored_post =
  sp_id :: "rat option"
  sp_user_id :: "rat option"
  sp_category_id :: "rat option"
  sp_title :: "string option"
  sp_body :: "string option"
  sp_markdown_body :: "string option"
  sp_rendered_html :: "string option"
  sp_excerpt :: "string option"
  sp_reading_time_minutes :: "rat option"
  sp_media_url :: "string option"
  sp_media_type :: "string option"
  sp_is_hidden :: "bool option"
  sp_hidden_reason :: "string option"
  sp_created_at :: "string option"

text \<open>Likes and bookmarks have the same fields.\<close>

record stored_like =
  sl_id :: "rat option"
  sl_user_id :: "rat option"
  sl_post_id :: "rat option"
  sl_created_at :: "string option"

record stored_comment =
  sm_id :: "rat option"
  sm_user_id :: "rat option"
  sm_post_id :: "rat option"
  sm_parent_comment_id :: "rat option"
  sm_depth :: "rat option"
  sm_path :: "string option"
  sm_body :: "string option"
  sm_is_hidden :: "bool option"
  sm_hidden_reason :: "string option"
  sm_created_at :: "string option"

record stored_tag =
  st_id :: "rat option"
  st_name :: "string option"
  st_slug :: "string option"
  st_created_at :: "string option"

record stored_post_tag =
  spt_post_id :: "rat option"
  spt_tag_id :: "rat option"

record stored_reaction =
  sr_id :: "rat option"
  sr_comment_id :: "rat option"
  sr_user_id :: "rat option"
  sr_reaction_type :: "string option"
  sr_created_at :: "string option"

record stored_report =
  sx_id :: "rat option"
  sx_reporter_user_id :: "rat option"
  sx_target_type :: "string option"
  sx_target_id :: "rat option"
  sx_reason_code :: "string option"
  sx_reason_text :: "string option"
  sx_status :: "string option"
  sx_assigned_to_user_id :: "rat option"
  sx_created_at :: "string option"
  sx_resolved_at :: "string option"

record stored_action =
  sa_id :: "rat option"
  sa_actor_user_id :: "rat option"
  sa_action_type :: "string option"
  sa_target_type :: "string option"
  sa_target_id :: "rat option"
  sa_notes :: "string option"
  sa_created_at :: "string option"

record snapshot =
  n_schema_version :: rat
  n_counters :: "entity \<Rightarrow> rat option"
  n_users :: "stored_user list"
  n_categories :: "stored_category list"
  n_posts :: "stored_post list"
  n_likes :: "stored_like list"
  n_comments :: "stored_comment list"
  n_tags :: "stored_tag list"
  n_post_tags :: "stored_post_tag list"
  n_bookmarks :: "stored_like list"
  n_comment_reactions :: "stored_reaction list"
  n_reports :: "stored_report list"
  n_moderation_actions :: "stored_action list"
  n_last_rebuild_at :: "string option"

subsection \<open>The steps of migrateState\<close>

text \<open>
  \<open>now\<close> stands for the value of \<open>nowIso()\<close>. The body of the loop over the users, for the
  user at index \<open>i\<close>; \<open>hasAdmin\<close> is computed before the loop, from the stored roles.
\<close>

definition migrateUser :: "string \<Rightarrow> bool \<Rightarrow> nat \<Rightarrow> stored_user \<Rightarrow> stored_user" where
  "migrateUser now hasAdmin i u =
     \<lparr> su_id = num (toInt (su_id u)),
       su_username = Some (trim (orStr (su_username u) [])),
       su_email = Some (normalizeText (orStr (su_email u) [])),
       su_password_hash = Some (orStr (su_password_hash u) []),
       su_bio = Some (orStr (su_bio u) []),
       su_avatar_url = Some (orStr (su_avatar_url u) []),
       su_created_at = Some (orStr (su_created_at u) now),
       su_role = Some (if \<not> hasAdmin \<and> i = 0 then ''admin'' else keepIf isRole (su_role u) ''user''),
       su_status = Some (keepIf isUserStatus (su_status u) ''active''),
       su_email_verified = Some (case su_email_verified u of None \<Rightarrow> True | Some b \<Rightarrow> b),
       su_verification_token_hash = orNull (su_verification_token_hash u),
       su_verification_expires_at = orNull (su_verification_expires_at u),
       su_reset_token_hash = orNull (su_reset_token_hash u),
       su_reset_expires_at = orNull (su_reset_expires_at u) \<rparr>"

definition migrateUsers :: "string \<Rightarrow> stored_user list \<Rightarrow> stored_user list" where
  "migrateUsers now us =
     (let hasAdmin = list_ex (\<lambda>u. su_role u = Some ''admin'') us
      in map (\<lambda>(i, u). migrateUser now hasAdmin i u) (enumerate 0 us))"

definition migrateCategory :: "nat \<Rightarrow> stored_category \<Rightarrow> stored_category" where
  "migrateCategory i c =
     \<lparr> sc_id = num (toInt (sc_id c)),
       sc_name = Some (orStr (sc_name c) (''Category '' @ String_of_int (int i + 1))),
       sc_slug = Some (slugify (orStr (sc_slug c)
                    (orStr (sc_name c) (''category-'' @ String_of_int (int i + 1))))),
       sc_description = Some (orStr (sc_description c) []),
       sc_sort_order = Some (orNum (sc_sort_order c) (of_int (int i + 1))) \<rparr>"

text \<open>The filter with the set \<open>categorySeen\<close>: the first category of each slug is kept.\<close>

fun filterCategories :: "string set \<Rightarrow> stored_category list \<Rightarrow> stored_category list" where
  "filterCategories seen [] = []"
| "filterCategories seen (c # cs) =
     (if orStr (sc_slug c) [] = [] \<or> orStr (sc_slug c) [] \<in> seen then filterCategories seen cs
      else c # filterCategories (insert (orStr (sc_slug c) []) seen) cs)"

definition migrateCategories :: "stored_category list \<Rightarrow> stored_category list" where
  "migrateCategories cs =
     filterCategories {} (map (\<lambda>(i, c). migrateCategory i c) (enumerate 0 cs))"

definition migratePost :: "string \<Rightarrow> stored_post \<Rightarrow> stored_post" where
  "migratePost now p =
     (let oldBody = orStr (sp_body p) [];
          markdown_body = orStr (sp_markdown_body p) (orStr (Some oldBody) [])
      in \<lparr> sp_id = num (toInt (sp_id p)),
           sp_user_id = num (toInt (sp_user_id p)),
           sp_category_id = num (toInt (sp_category_id p)),
           sp_title = Some (trim (orStr (sp_title p) [])),
           sp_body = sp_body p,
           sp_markdown_body = Some markdown_body,
           sp_rendered_html = Some (orStr (sp_rendered_html p) []),
           sp_excerpt = Some (orStr (sp_excerpt p) (summarize markdown_body)),
           sp_reading_time_minutes =
             Some (orNum (sp_reading_time_minutes p) (of_int (computeReadingTime markdown_body))),
           sp_media_url = Some (orStr (sp_media_url p) []),
           sp_media_type =
             Some (keepIf (\<lambda>t. t \<in> set [''none'', ''image'', ''video'']) (sp_media_type p) ''none''),
           sp_is_hidden = Some (toBoolean (sp_is_hidden p)),
           sp_hidden_reason = Some (orStr (sp_hidden_reason p) []),
           sp_created_at = Some (orStr (sp_created_at p) now) \<rparr>)"

definition migrateLike :: "string \<Rightarrow> stored_like \<Rightarrow> stored_like" where
  "migrateLike now l =
     \<lparr> sl_id = num (toInt (sl_id l)), sl_user_id = num (toInt (sl_user_id l)),
       sl_post_id = num (toInt (sl_post_id l)),
       sl_created_at = Some (orStr (sl_created_at l) now) \<rparr>"

definition migrateLikes :: "string \<Rightarrow> stored_like list \<Rightarrow> stored_like list" where
  "migrateLikes now ls =
     filter (\<lambda>l. toInt (sl_id l) > 0 \<and> toInt (sl_user_id l) > 0 \<and> toInt (sl_post_id l) > 0)
       (map (migrateLike now) ls)"

text \<open>The first loop over the comments coerces the fields and collects the ids.\<close>

definition coerceComment :: "string \<Rightarrow> stored_comment \<Rightarrow> stored_comment" where
  "coerceComment now c =
     \<lparr> sm_id = num (toInt (sm_id c)),
       sm_user_id = num (toInt (sm_user_id c)),
       sm_post_id = num (toInt (sm_post_id c)),
       sm_parent_comment_id = intOrNull (sm_parent_comment_id c),
       sm_depth = Some (case sm_depth c of None \<Rightarrow> 0 | Some d \<Rightarrow> if isInteger d then d else 0),
       sm_path = Some (orStr (sm_path c) []),
       sm_body = Some (orStr (sm_body c) []),
       sm_is_hidden = Some (toBoolean (sm_is_hidden c)),
       sm_hidden_reason = Some (orStr (sm_hidden_reason c) []),
       sm_created_at = Some (orStr (sm_created_at c) now) \<rparr>"

text \<open>
  The second loop drops a parent id that is not in \<open>commentSeen\<close> and fills an empty path
  from the parent id and the comment's own id.
\<close>

definition repairComment :: "int set \<Rightarrow> stored_comment \<Rightarrow> stored_comment" where
  "repairComment commentSeen c =
     (let dangling = (truthyNum (sm_parent_comment_id c)
                      \<and> toInt (sm_parent_comment_id c) \<notin> commentSeen);
          parent = (if dangling then None else sm_parent_comment_id c);
          depth = (if dangling then Some 0 else sm_depth c);
          pathValue =
            (if orStr (sm_path c) [] = []
             then Some (if truthyNum parent
                        then padId (toInt parent) @ ''.'' @ padId (toInt (sm_id c))
                        else padId (toInt (sm_id c)))
             else sm_path c)
      in c\<lparr> sm_parent_comment_id := parent, sm_depth := depth, sm_path := pathValue \<rparr>)"

definition migrateComments :: "string \<Rightarrow> stored_comment list \<Rightarrow> stored_comment list" where
  "migrateComments now cs =
     (let coerced = map (coerceComment now) cs;
          commentSeen = set (map (\<lambda>c. toInt (sm_id c)) coerced)
      in map (repairComment commentSeen) coerced)"

definition migrateTag :: "string \<Rightarrow> stored_tag \<Rightarrow> stored_tag" where
  "migrateTag now t =
     (let name = trim (orStr (st_name t) []);
          slug = slugify (orStr (st_slug t) name)
      in \<lparr> st_id = num (toInt (st_id t)),
           st_name = Some (orStr (Some name) slug),
           st_slug = Some slug,
           st_created_at = Some (orStr (st_created_at t) now) \<rparr>)"

fun filterTags :: "string set \<Rightarrow> stored_tag list \<Rightarrow> stored_tag list" where
  "filterTags seen [] = []"
| "filterTags seen (t # ts) =
     (if toInt (st_id t) = 0 \<or> orStr (st_slug t) [] = [] \<or> orStr (st_slug t) [] \<in> seen
      then filterTags seen ts
      else t # filterTags (insert (orStr (st_slug t) []) seen) ts)"

definition migrateTags :: "string \<Rightarrow> stored_tag list \<Rightarrow> stored_tag list" where
  "migrateTags now ts = filterTags {} (map (migrateTag now) ts)"

definition migratePostTags :: "stored_post_tag list \<Rightarrow> stored_post_tag list" where
  "migratePostTags rs =
     filter (\<lambda>r. toInt (spt_post_id r) > 0 \<and> toInt (spt_tag_id r) > 0)
       (map (\<lambda>r. \<lparr> spt_post_id = num (toInt (spt_post_id r)),
                   spt_tag_id = num (toInt (spt_tag_id r)) \<rparr>) rs)"

definition migrateReaction :: "string \<Rightarrow> stored_reaction \<Rightarrow> stored_reaction" where
  "migrateReaction now r =
     \<lparr> sr_id = num (toInt (sr_id r)), sr_comment_id = num (toInt (sr_comment_id r)),
       sr_user_id = num (toInt (sr_user_id r)),
       sr_reaction_type = Some (keepIf isReaction (sr_reaction_type r) ''like''),
       sr_created_at = Some (orStr (sr_created_at r) now) \<rparr>"

definition migrateReactions :: "string \<Rightarrow> stored_reaction list \<Rightarrow> stored_reaction list" where
  "migrateReactions now rs =
     filter (\<lambda>r. toInt (sr_id r) > 0 \<and> toInt (sr_comment_id r) > 0 \<and> toInt (sr_user_id r) > 0)
       (map (migrateReaction now) rs)"

definition migrateReport :: "string \<Rightarrow> stored_report \<Rightarrow> stored_report" where
  "migrateReport now r =
     \<lparr> sx_id = num (toInt (sx_id r)),
       sx_reporter_user_id = num (toInt (sx_reporter_user_id r)),
       sx_target_type = Some (keepIf isReportTarget (sx_target_type r) ''post''),
       sx_target_id = num (toInt (sx_target_id r)),
       sx_reason_code = Some (orStr (sx_reason_code r) ''other''),
       sx_reason_text = Some (orStr (sx_reason_text r) []),
       sx_status = Some (keepIf isReportStatus (sx_status r) ''open''),
       sx_assigned_to_user_id = intOrNull (sx_assigned_to_user_id r),
       sx_created_at = Some (orStr (sx_created_at r) now),
       sx_resolved_at = orNull (sx_resolved_at r) \<rparr>"

definition migrateReports :: "string \<Rightarrow> stored_report list \<Rightarrow> stored_report list" where
  "migrateReports now rs =
     filter (\<lambda>r. toInt (sx_id r) > 0 \<and> toInt (sx_reporter_user_id r) > 0
                 \<and> toInt (sx_target_id r) > 0)
       (map (migrateReport now) rs)"

definition migrateAction :: "string \<Rightarrow> stored_action \<Rightarrow> stored_action" where
  "migrateAction now a =
     \<lparr> sa_id = num (toInt (sa_id a)),
       sa_actor_user_id = num (toInt (sa_actor_user_id a)),
       sa_action_type = Some (orStr (sa_action_type a) ''unknown''),
       sa_target_type = Some (orStr (sa_target_type a) ''unknown''),
       sa_target_id = num (toInt (sa_target_id a)),
       sa_notes = Some (orStr (sa_notes a) []),
       sa_created_at = Some (orStr (sa_created_at a) now) \<rparr>"

definition migrateActions :: "string \<Rightarrow> stored_action list \<Rightarrow> stored_action list" where
  "migrateActions now as =
     filter (\<lambda>a. toInt (sa_id a) > 0 \<and> toInt (sa_actor_user_id a) > 0
                 \<and> toInt (sa_target_id a) > 0)
       (map (migrateAction now) as)"

definition SCHEMA_VERSION :: rat where
  "SCHEMA_VERSION = 2"

definition migrateState :: "string \<Rightarrow> snapshot \<Rightarrow> snapshot" where
  "migrateState now s =
     \<lparr> n_schema_version = SCHEMA_VERSION,
       n_counters = n_counters s,
       n_users = migrateUsers now (n_users s),
       n_categories = migrateCategories (n_categories s),
       n_posts = map (migratePost now) (n_posts s),
       n_likes = migrateLikes now (n_likes s),
       n_comments = migrateComments now (n_comments s),
       n_tags = migrateTags now (n_tags s),
       n_post_tags = migratePostTags (n_post_tags s),
       n_bookmarks = migrateLikes now (n_bookmarks s),
       n_comment_reactions = migrateReactions now (n_comment_reactions s),
       n_reports = migrateReports now (n_reports s),
       n_moderation_actions = migrateActions now (n_moderation_actions s),
       n_last_rebuild_at = orNull (n_last_rebuild_at s) \<rparr>"

subsection \<open>Example snapshots\<close>

definition emptySnapshot :: snapshot where
  "emptySnapshot =
     \<lparr> n_schema_version = 1, n_counters = (\<lambda>_. None), n_users = [], n_categories = [],
       n_posts = [], n_likes = [], n_comments = [], n_tags = [], n_post_tags = [],
       n_bookmarks = [], n_comment_reactions = [], n_reports = [], n_moderation_actions = [],
       n_last_rebuild_at = None \<rparr>"

text \<open>
  A comment of user 2 on post 1 as an older version stored it: with id, parent id and
  depth, and without a path.
\<close>

definition legacyComment :: "rat \<Rightarrow> rat option \<Rightarrow> rat \<Rightarrow> stored_comment" where
  "legacyComment i parent depth =
     \<lparr> sm_id = Some i, sm_user_id = Some 2, sm_post_id = Some 1, sm_parent_comment_id = parent,
       sm_depth = Some depth, sm_path = None, sm_body = Some ''text'', sm_is_hidden = Some False,
       sm_hidden_reason = Some [], sm_created_at = Some ''2024-01-01T00:00:00.000Z'' \<rparr>"

text \<open>What the migration makes of such a comment, given the parent id and path it ends with.\<close>

definition migratedComment :: "int \<Rightarrow> rat option \<Rightarrow> int \<Rightarrow> string \<Rightarrow> stored_comment" where
  "migratedComment i parent depth pathValue =
     \<lparr> sm_id = num i, sm_user_id = num 2, sm_post_id = num 1, sm_parent_comment_id = parent,
       sm_depth = Some (of_int depth), sm_path = Some pathValue, sm_body = Some ''text'',
       sm_is_hidden = Some False, sm_hidden_reason = Some [],
       sm_created_at = Some ''2024-01-01T00:00:00.000Z'' \<rparr>"

text \<open>A thread of three comments: 2 replies to 1, and 3 replies to 2.\<close>

definition chain_snapshot :: snapshot where
  "chain_snapshot =
     emptySnapshot\<lparr> n_comments := [legacyComment 1 None 0, legacyComment 2 (Some 1) 1,
                                   legacyComment 3 (Some 2) 2] \<rparr>"

text \<open>A snapshot in which the parent id of comment 4 is the number 1.5.\<close>

definition fraction_snapshot :: snapshot where
  "fraction_snapshot =
     emptySnapshot\<lparr> n_comments := [legacyComment 1 None 0, legacyComment 4 (Some (3 / 2)) 1] \<rparr>"

text \<open>A snapshot whose only comment was stored without an id and without a path.\<close>

definition idless_snapshot :: snapshot where
  "idless_snapshot = emptySnapshot\<lparr> n_comments := [(legacyComment 0 None 0)\<lparr> sm_id := None \<rparr>] \<rparr>"

text \<open>A snapshot whose only report is assigned to the number 1.5.\<close>

definition fraction_report_snapshot :: snapshot where
  "fraction_report_snapshot =
     emptySnapshot\<lparr> n_reports :=
       [\<lparr> sx_id = Some 1, sx_reporter_user_id = Some 3, sx_target_type = Some ''post'',
           sx_target_id = Some 5, sx_reason_code = Some ''spam'', sx_reason_text = Some [],
           sx_status = Some ''in_review'', sx_assigned_to_user_id = Some (3 / 2),
           sx_created_at = Some ''2024-01-01T00:00:00.000Z'', sx_resolved_at = None \<rparr>] \<rparr>"

definition now0 :: string where
  "now0 = ''2024-05-05T00:00:00.000Z''"

text \<open>A snapshot that stores two like rows of user 7 for post 1.\<close>

definition double_like_snapshot :: snapshot where
  "double_like_snapshot =
     emptySnapshot\<lparr> n_likes :=
       [\<lparr> sl_id = Some 1, sl_user_id = Some 7, sl_post_id = Some 1,
           sl_created_at = Some ''2024-01-01T00:00:00.000Z'' \<rparr>,
        \<lparr> sl_id = Some 2, sl_user_id = Some 7, sl_post_id = Some 1,
           sl_created_at = Some ''2024-01-02T00:00:00.000Z'' \<rparr>] \<rparr>"

text \<open>A snapshot in which comment 5 names the parent 9, which is not stored.\<close>

definition dangling_snapshot :: snapshot where
  "dangling_snapshot =
     emptySnapshot\<lparr> n_comments := [legacyComment 1 None 0, legacyComment 5 (Some 9) 3] \<rparr>"

section \<open>Properties\<close>

subsection \<open>Pagination\<close>



lemma ceiling_seven_thirds: "\<lceil>(7::rat) / 3\<rceil> = 3"
  by (rule ceiling_unique) simp_all

lemma paginate_example_middle:
  "paginate [10, 20, 30, 40, 50, 60, 70 :: int] 2 3
     = \<lparr> items = [40, 50, 60], total = 7, pages = 3, page = 2, pageSize = 3 \<rparr>"
proof -
  have a: "min (max (if (3::int) = 0 then 10 else 3) 1) MAX_PAGE_SIZE = 3"
    by (simp add: MAX_PAGE_SIZE_def)
  have b: "int (length [10, 20, 30, 40, 50, 60, 70 :: int]) = 7" by simp
  have c: "max 1 \<lceil>(of_int 7 :: rat) / of_int 3\<rceil> = 3" by (simp add: ceiling_seven_thirds)
  have d: "min (max (if (2::int) = 0 then 1 else 2) 1) 3 = (2::int)" by simp
  have e: "slice [10, 20, 30, 40, 50, 60, 70 :: int] ((2 - 1) * 3) ((2 - 1) * 3 + 3) = [40, 50, 60]"
    by (simp add: slice_def relIndex_def)
  show ?thesis unfolding paginate_def Let_def a b c d e ..
qed



subsection \<open>Lists updated in place\<close>

lemma update_first_nth:
  "i < length xs \<Longrightarrow> P (xs ! i) \<Longrightarrow> (\<forall>j<i. \<not> P (xs ! j))
   \<Longrightarrow> update_first P f xs = xs[i := f (xs ! i)]"
proof (induction xs arbitrary: i)
  case Nil
  then show ?case by simp
next
  case (Cons x xs)
  show ?case
  proof (cases i)
    case 0
    with Cons.prems show ?thesis by simp
  next
    case (Suc k)
    with Cons.prems have "\<not> P x" by auto
    moreover have "update_first P f xs = xs[k := f (xs ! k)]"
      using Cons.prems Suc by (intro Cons.IH) auto
    ultimately show ?thesis using Suc by simp
  qed
qed

lemma update_first_None: "find P xs = None \<Longrightarrow> update_first P f xs = xs"
  by (induction xs) (auto split: if_splits)

subsection \<open>Evaluating padded identifiers\<close>

declare digits.simps [simp del]

lemma digits_small: "n < 10 \<Longrightarrow> digits n = [''0123456789'' ! n]"
  by (subst digits.simps) simp

lemma digits_large:
  "\<not> n < 10 \<Longrightarrow> digits n = digits (n div 10) @ [''0123456789'' ! (n mod 10)]"
  by (subst digits.simps) simp

lemma replicate_numeral: "replicate (numeral k) x = x # replicate (pred_numeral k) x"
  by (simp add: numeral_eq_Suc)

lemmas padId_eval = padId_def padStart_def String_of_int_def digits_small digits_large
  replicate_numeral

lemma padId_3: "padId 3 = ''0000000003''"
  by (simp add: padId_eval)

subsection \<open>Creating comments\<close>

text \<open>
  Claim C6, as amended. A reply to an existing comment of the same post, named by an id
  other than 0, is always created, and its path is the parent's path, a dot and its own
  padded id, its depth the parent's plus one, its parent the comment found. A comment
  created without a parent is always created, with its own padded id as path and depth 0;
  and \<open>addComment\<close> reads the parent id 0 as "no parent", whatever the store holds.
\<close>

theorem addComment_path_depth:
  "(k \<noteq> 0 \<and> getCommentRawById s k = Some p \<and> c_post_id p = post_id \<longrightarrow>
      (\<exists>c s'. addComment now s user_id post_id body (Some k) = (Some c, s')
         \<and> c_path c = c_path p @ ''.'' @ padId (c_id c)
         \<and> c_depth c = c_depth p + 1
         \<and> c_parent_comment_id c = Some (c_id p)
         \<and> comments s' = comments s @ [c]))
   \<and> (\<exists>c s'. addComment now s user_id post_id body None = (Some c, s')
         \<and> c_path c = padId (c_id c)
         \<and> c_depth c = 0
         \<and> c_parent_comment_id c = None
         \<and> comments s' = comments s @ [c])
   \<and> addComment now s user_id post_id body (Some 0) = addComment now s user_id post_id body None"
  by (simp add: addComment_def nextId_def buildCommentPath_def Let_def)

theorem addComment_path_depth_witness:
  "(1::int) \<noteq> 0 \<and> getCommentRawById thread_state 1 = Some root1 \<and> c_post_id root1 = 1
   \<and> fst (addComment 3000 thread_state 3 1 ''third'' (Some 1))
       = Some \<lparr> c_id = 3, c_user_id = 3, c_post_id = 1, c_parent_comment_id = Some 1, c_depth = 1,
             c_path = ''0000000001.0000000003'', c_body = ''third'', c_is_hidden = False,
             c_hidden_reason = [], c_created_at = 3000 \<rparr>
   \<and> fst (addComment 3000 thread_state 3 1 ''third'' None)
       = Some \<lparr> c_id = 3, c_user_id = 3, c_post_id = 1, c_parent_comment_id = None, c_depth = 0,
             c_path = ''0000000003'', c_body = ''third'', c_is_hidden = False,
             c_hidden_reason = [], c_created_at = 3000 \<rparr>"
  using addComment_path_depth [of 1 thread_state root1 1 3000 3 "''third''"]
  by (simp add: addComment_def nextId_def buildCommentPath_def Let_def padId_3
      getCommentRawById_def thread_state_def baseState_def root1_def reply2_def)

text \<open>
  Claim C6 as stated fails where the parent has the id 0. In the store whose only comment
  has id 0 and belongs to post 1, a reply to that comment on post 1 names a parent that
  exists and belongs to the same post; \<open>addComment\<close> takes the id 0 for "no parent" and
  creates the root comment 1 with path \<open>0000000001\<close> and depth 0, where the claim asks for
  the path \<open>0000000000.0000000001\<close> and depth 1.
\<close>

theorem addComment_parent_zero_counterexample:
  "getCommentRawById zero_id_state 0 = Some zero_comment
   \<and> c_post_id zero_comment = 1
   \<and> fst (addComment 3000 zero_id_state 3 1 ''reply'' (Some 0))
       = Some \<lparr> c_id = 1, c_user_id = 3, c_post_id = 1, c_parent_comment_id = None, c_depth = 0,
             c_path = ''0000000001'', c_body = ''reply'', c_is_hidden = False,
             c_hidden_reason = [], c_created_at = 3000 \<rparr>
   \<and> c_path zero_comment @ ''.'' @ padId 1 = ''0000000000.0000000001''
   \<and> c_depth zero_comment + 1 = 1"
proof -
  have p1: "padId 1 = ''0000000001''" by (simp add: padId_eval)
  show ?thesis
    by (simp add: addComment_def nextId_def buildCommentPath_def Let_def p1
        getCommentRawById_def zero_id_state_def zero_comment_def baseState_def)
qed

text \<open>
  A reply whose parent exists but belongs to another post is refused and the store is
  left as it was.
\<close>

lemma addComment_other_post:
  "k \<noteq> 0 \<Longrightarrow> getCommentRawById s k = Some p \<Longrightarrow> c_post_id p \<noteq> post_id
   \<Longrightarrow> addComment now s user_id post_id body (Some k) = (None, s)"
  by (simp add: addComment_def)

text \<open>
  Claim C2. The claim asks that a reply whose parent id matches no comment be refused
  with the store unchanged. In the thread above no comment has id 99, yet
  \<open>addComment\<close> with \<open>parent_comment_id = 99\<close> returns a new root comment, appends it and
  advances the counter: the lookup yields \<open>null\<close>, which the function does not tell apart
  from "no parent given".
\<close>

theorem addComment_missing_parent_accepted:
  "getCommentRawById thread_state 99 = None
   \<and> fst (addComment 3000 thread_state 3 1 ''orphan'' (Some 99))
       = Some \<lparr> c_id = 3, c_user_id = 3, c_post_id = 1, c_parent_comment_id = None, c_depth = 0,
             c_path = ''0000000003'', c_body = ''orphan'', c_is_hidden = False,
             c_hidden_reason = [], c_created_at = 3000 \<rparr>
   \<and> comments (snd (addComment 3000 thread_state 3 1 ''orphan'' (Some 99)))
       = [root1, reply2,
          \<lparr> c_id = 3, c_user_id = 3, c_post_id = 1, c_parent_comment_id = None, c_depth = 0,
             c_path = ''0000000003'', c_body = ''orphan'', c_is_hidden = False,
             c_hidden_reason = [], c_created_at = 3000 \<rparr>]
   \<and> counters (snd (addComment 3000 thread_state 3 1 ''orphan'' (Some 99))) Comments = 3
   \<and> counters thread_state Comments = 2"
  by (simp add: addComment_def nextId_def buildCommentPath_def Let_def padId_3
      getCommentRawById_def thread_state_def baseState_def root1_def reply2_def)

subsection \<open>Hiding and restoring comments\<close>

text \<open>
  Claim C9. When the comment exists, \<open>hideComment\<close> and \<open>unhideComment\<close> return the store
  in which the comment found (at its position \<open>i\<close> of the array) has a new \<open>is_hidden\<close> and
  \<open>hidden_reason\<close> and nothing else differs: its other fields, every other comment, the
  counters and every other collection are as before.
\<close>

theorem hide_unhide_frame:
  assumes "getCommentRawById s commentId = Some c"
  shows "\<exists>i<length (comments s). comments s ! i = c
      \<and> comment_core (c\<lparr>c_is_hidden := True, c_hidden_reason := reason\<rparr>) = comment_core c
      \<and> hideComment s commentId reason =
          (Some (c\<lparr>c_is_hidden := True, c_hidden_reason := reason\<rparr>),
           s\<lparr>comments := (comments s)[i := c\<lparr>c_is_hidden := True, c_hidden_reason := reason\<rparr>]\<rparr>)
      \<and> comment_core (c\<lparr>c_is_hidden := False, c_hidden_reason := []\<rparr>) = comment_core c
      \<and> unhideComment s commentId =
          (Some (c\<lparr>c_is_hidden := False, c_hidden_reason := []\<rparr>),
           s\<lparr>comments := (comments s)[i := c\<lparr>c_is_hidden := False, c_hidden_reason := []\<rparr>]\<rparr>)"
proof -
  let ?P = "\<lambda>c. c_id c = commentId"
  from assms have f: "find ?P (comments s) = Some c" by (simp add: getCommentRawById_def)
  then obtain i where i: "i < length (comments s)" "comments s ! i = c" "?P (comments s ! i)"
      "\<forall>j<i. \<not> ?P (comments s ! j)"
    by (auto simp: find_Some_iff)
  have u: "update_first ?P f (comments s) = (comments s)[i := f c]" for f
    using update_first_nth [of i "comments s" ?P f] i by simp
  show ?thesis
    using i(1,2) assms
    by (intro exI [of _ i]) (simp add: hideComment_def unhideComment_def u comment_core_def)
qed

theorem hide_unhide_frame_witness:
  "getCommentRawById thread_state 2 = Some reply2
   \<and> snd (hideComment thread_state 2 ''spam'')
       = thread_state\<lparr>comments := [root1, reply2\<lparr>c_is_hidden := True, c_hidden_reason := ''spam''\<rparr>]\<rparr>
   \<and> snd (unhideComment thread_state 2) = thread_state"
  using hide_unhide_frame [of thread_state 2 reply2 "''spam''"]
  by (simp add: hideComment_def unhideComment_def getCommentRawById_def thread_state_def
      baseState_def root1_def reply2_def)

subsection \<open>Toggling likes, bookmarks and reactions\<close>

lemma find_eq_filter: "find P xs = (case filter P xs of [] \<Rightarrow> None | x # _ \<Rightarrow> Some x)"
  by (induction xs) auto

lemma list_ex_filter: "list_ex P xs \<longleftrightarrow> filter P xs \<noteq> []"
  by (induction xs) auto

lemma toggle_list_rows:
  assumes "length (filter M xs) \<le> 1" and "M x"
  shows "length (filter M (case find M xs of
                             Some e \<Rightarrow> filter (\<lambda>y. idf y \<noteq> idf e) xs
                           | None \<Rightarrow> xs @ [x]))
         = 1 - length (filter M xs)"
proof (cases "filter M xs")
  case Nil
  then show ?thesis using assms(2) by (simp add: find_eq_filter)
next
  case (Cons e es)
  with assms(1) have one: "filter M xs = [e]" by simp
  have "filter M (filter (\<lambda>y. idf y \<noteq> idf e) xs) = filter (\<lambda>y. idf y \<noteq> idf e) (filter M xs)"
    by (induction xs) auto
  then have "filter M (filter (\<lambda>y. idf y \<noteq> idf e) xs) = []" by (simp add: one)
  then show ?thesis by (simp add: find_eq_filter one)
qed

lemma toggle_list_other:
  assumes "\<not> N x"
  shows "length (filter N (case find M xs of
                             Some e \<Rightarrow> filter (\<lambda>y. idf y \<noteq> idf e) xs
                           | None \<Rightarrow> xs @ [x]))
         \<le> length (filter N xs)"
proof (cases "find M xs")
  case None
  then show ?thesis using assms by simp
next
  case (Some e)
  have "length (filter N (filter (\<lambda>y. idf y \<noteq> idf e) xs)) \<le> length (filter N xs)"
    by (induction xs) auto
  then show ?thesis using Some by simp
qed

lemma likes_toggleLike:
  "likes (snd (toggleLike now s u p)) =
     (case find (\<lambda>l. l_user_id l = u \<and> l_post_id l = p) (likes s) of
        Some e \<Rightarrow> filter (\<lambda>y. l_id y \<noteq> l_id e) (likes s)
      | None \<Rightarrow> likes s @ [\<lparr> l_id = counters s Likes + 1, l_user_id = u, l_post_id = p,
                               l_created_at = now \<rparr>])"
  by (simp add: toggleLike_def nextId_def Let_def split: option.splits)

lemma likeRows_toggleLike:
  "likeRows s u p \<le> 1 \<Longrightarrow> likeRows (snd (toggleLike now s u p)) u p = 1 - likeRows s u p"
  unfolding likeRows_def likes_toggleLike
  by (rule toggle_list_rows) simp_all

lemma likeRows_toggleLike_other:
  "(u', p') \<noteq> (u, p) \<Longrightarrow> likeRows (snd (toggleLike now s u' p')) u p \<le> likeRows s u p"
  unfolding likeRows_def likes_toggleLike
  by (rule toggle_list_other) auto

lemma hasLike_rows: "hasLike s u p \<longleftrightarrow> likeRows s u p \<noteq> 0"
  by (simp add: hasLike_def likeRows_def list_ex_filter)

lemma toggleLike_unique:
  assumes "\<forall>u p. likeRows s u p \<le> 1"
  shows "likeRows (snd (toggleLike now s u' p')) u p \<le> 1"
proof (cases "(u', p') = (u, p)")
  case True
  then show ?thesis using likeRows_toggleLike [of s u p now] assms by simp
next
  case False
  then show ?thesis using likeRows_toggleLike_other [of u' p' u p now s] assms
    by (meson le_trans)
qed

lemma bookmarks_toggleBookmark:
  "bookmarks (snd (toggleBookmark now s u p)) =
     (case find (\<lambda>l. b_user_id l = u \<and> b_post_id l = p) (bookmarks s) of
        Some e \<Rightarrow> filter (\<lambda>y. b_id y \<noteq> b_id e) (bookmarks s)
      | None \<Rightarrow> bookmarks s @ [\<lparr> b_id = counters s Bookmarks + 1, b_user_id = u, b_post_id = p,
                               b_created_at = now \<rparr>])"
  by (simp add: toggleBookmark_def nextId_def Let_def split: option.splits)

lemma bookmarkRows_toggleBookmark:
  "bookmarkRows s u p \<le> 1 \<Longrightarrow> bookmarkRows (snd (toggleBookmark now s u p)) u p = 1 - bookmarkRows s u p"
  unfolding bookmarkRows_def bookmarks_toggleBookmark
  by (rule toggle_list_rows) simp_all

lemma bookmarkRows_toggleBookmark_other:
  "(u', p') \<noteq> (u, p) \<Longrightarrow> bookmarkRows (snd (toggleBookmark now s u' p')) u p \<le> bookmarkRows s u p"
  unfolding bookmarkRows_def bookmarks_toggleBookmark
  by (rule toggle_list_other) auto

lemma hasBookmark_rows: "hasBookmark s u p \<longleftrightarrow> bookmarkRows s u p \<noteq> 0"
  by (simp add: hasBookmark_def bookmarkRows_def list_ex_filter)

lemma toggleBookmark_unique:
  assumes "\<forall>u p. bookmarkRows s u p \<le> 1"
  shows "bookmarkRows (snd (toggleBookmark now s u' p')) u p \<le> 1"
proof (cases "(u', p') = (u, p)")
  case True
  then show ?thesis using bookmarkRows_toggleBookmark [of s u p now] assms by simp
next
  case False
  then show ?thesis using bookmarkRows_toggleBookmark_other [of u' p' u p now s] assms
    by (meson le_trans)
qed

lemma reactions_toggleCommentReaction:
  "isReaction t \<Longrightarrow> comment_reactions (snd (toggleCommentReaction now s u c t)) =
     (case find (\<lambda>r. cr_comment_id r = c \<and> cr_user_id r = u \<and> cr_reaction_type r = t)
             (comment_reactions s) of
        Some e \<Rightarrow> filter (\<lambda>y. cr_id y \<noteq> cr_id e) (comment_reactions s)
      | None \<Rightarrow> comment_reactions s @
          [\<lparr> cr_id = counters s Comment_reactions + 1, cr_comment_id = c, cr_user_id = u,
             cr_reaction_type = t, cr_created_at = now \<rparr>])"
  by (simp add: toggleCommentReaction_def nextId_def Let_def split: option.splits)

lemma toggleCommentReaction_invalid:
  "\<not> isReaction t \<Longrightarrow> toggleCommentReaction now s u c t = (None, s)"
  by (simp add: toggleCommentReaction_def)

lemma reactionRows_toggleCommentReaction:
  "isReaction t \<Longrightarrow> reactionRows s u c t \<le> 1
   \<Longrightarrow> reactionRows (snd (toggleCommentReaction now s u c t)) u c t = 1 - reactionRows s u c t"
  unfolding reactionRows_def
  by (simp only: reactions_toggleCommentReaction) (rule toggle_list_rows, simp_all)

lemma reactionRows_toggleCommentReaction_other:
  "(u', c', t') \<noteq> (u, c, t)
   \<Longrightarrow> reactionRows (snd (toggleCommentReaction now s u' c' t')) u c t \<le> reactionRows s u c t"
proof (cases "isReaction t'")
  case True
  assume "(u', c', t') \<noteq> (u, c, t)"
  then show ?thesis
    unfolding reactionRows_def reactions_toggleCommentReaction [OF True]
    by (intro toggle_list_other) auto
next
  case False
  then show ?thesis by (simp add: toggleCommentReaction_invalid)
qed

lemma hasReaction_rows: "hasReaction s u c t \<longleftrightarrow> reactionRows s u c t \<noteq> 0"
  by (simp add: hasReaction_def reactionRows_def list_ex_filter)

lemma toggleCommentReaction_unique:
  assumes "\<forall>u c t. reactionRows s u c t \<le> 1"
  shows "reactionRows (snd (toggleCommentReaction now s u' c' t')) u c t \<le> 1"
proof (cases "(u', c', t') = (u, c, t) \<and> isReaction t'")
  case True
  then have "reactionRows (snd (toggleCommentReaction now s u c t)) u c t = 1 - reactionRows s u c t"
    using assms by (intro reactionRows_toggleCommentReaction) auto
  then show ?thesis using True by simp
next
  case False
  show ?thesis
  proof (cases "isReaction t'")
    case True
    with False have "(u', c', t') \<noteq> (u, c, t)" by simp
    then show ?thesis using reactionRows_toggleCommentReaction_other [of u' c' t' u c t now s] assms
      by (meson le_trans)
  next
    case False
    then show ?thesis using assms by (simp add: toggleCommentReaction_invalid)
  qed
qed

text \<open>
  Claim C8, as amended. Where the user holds at most one row for the target, one toggle
  flips the presence of the row, a second toggle restores it, and after each of them the
  user still holds at most one row; this holds for likes, bookmarks and, for each reaction
  type, comment reactions (a toggle with an unknown reaction type changes nothing). The
  empty store holds no row, and a toggle for any user and target keeps "at most one row
  per user and target" true for all of them.
\<close>

theorem toggle_twice_restores:
  "(likeRows s u p \<le> 1 \<longrightarrow>
      hasLike (snd (toggleLike n2 (snd (toggleLike n1 s u p)) u p)) u p = hasLike s u p
      \<and> hasLike (snd (toggleLike n1 s u p)) u p = (\<not> hasLike s u p)
      \<and> likeRows (snd (toggleLike n1 s u p)) u p \<le> 1
      \<and> likeRows (snd (toggleLike n2 (snd (toggleLike n1 s u p)) u p)) u p \<le> 1)
   \<and> (bookmarkRows s u p \<le> 1 \<longrightarrow>
      hasBookmark (snd (toggleBookmark n2 (snd (toggleBookmark n1 s u p)) u p)) u p = hasBookmark s u p
      \<and> hasBookmark (snd (toggleBookmark n1 s u p)) u p = (\<not> hasBookmark s u p)
      \<and> bookmarkRows (snd (toggleBookmark n1 s u p)) u p \<le> 1
      \<and> bookmarkRows (snd (toggleBookmark n2 (snd (toggleBookmark n1 s u p)) u p)) u p \<le> 1)
   \<and> (reactionRows s u c t \<le> 1 \<longrightarrow>
      hasReaction (snd (toggleCommentReaction n2 (snd (toggleCommentReaction n1 s u c t)) u c t)) u c t
        = hasReaction s u c t
      \<and> (isReaction t \<longrightarrow>
           hasReaction (snd (toggleCommentReaction n1 s u c t)) u c t = (\<not> hasReaction s u c t))
      \<and> reactionRows (snd (toggleCommentReaction n1 s u c t)) u c t \<le> 1
      \<and> reactionRows (snd (toggleCommentReaction n2 (snd (toggleCommentReaction n1 s u c t)) u c t)) u c t
          \<le> 1)
   \<and> likeRows baseState u p = 0 \<and> bookmarkRows baseState u p = 0 \<and> reactionRows baseState u c t = 0
   \<and> ((\<forall>u p. likeRows s u p \<le> 1) \<longrightarrow> (\<forall>u p. likeRows (snd (toggleLike n1 s u' p')) u p \<le> 1))
   \<and> ((\<forall>u p. bookmarkRows s u p \<le> 1)
        \<longrightarrow> (\<forall>u p. bookmarkRows (snd (toggleBookmark n1 s u' p')) u p \<le> 1))
   \<and> ((\<forall>u c t. reactionRows s u c t \<le> 1)
        \<longrightarrow> (\<forall>u c t. reactionRows (snd (toggleCommentReaction n1 s u' c' t')) u c t \<le> 1))"
proof -
  have likes: "hasLike (snd (toggleLike n2 (snd (toggleLike n1 s u p)) u p)) u p = hasLike s u p
      \<and> hasLike (snd (toggleLike n1 s u p)) u p = (\<not> hasLike s u p)
      \<and> likeRows (snd (toggleLike n1 s u p)) u p \<le> 1
      \<and> likeRows (snd (toggleLike n2 (snd (toggleLike n1 s u p)) u p)) u p \<le> 1"
    if a: "likeRows s u p \<le> 1"
  proof -
    let ?s1 = "snd (toggleLike n1 s u p)"
    have r1: "likeRows ?s1 u p = 1 - likeRows s u p" using a by (rule likeRows_toggleLike)
    then have le1: "likeRows ?s1 u p \<le> 1" by simp
    have r2: "likeRows (snd (toggleLike n2 ?s1 u p)) u p = 1 - likeRows ?s1 u p"
      using le1 by (rule likeRows_toggleLike)
    show ?thesis using a r1 r2 by (simp add: hasLike_rows) linarith
  qed
  have bms: "hasBookmark (snd (toggleBookmark n2 (snd (toggleBookmark n1 s u p)) u p)) u p
        = hasBookmark s u p
      \<and> hasBookmark (snd (toggleBookmark n1 s u p)) u p = (\<not> hasBookmark s u p)
      \<and> bookmarkRows (snd (toggleBookmark n1 s u p)) u p \<le> 1
      \<and> bookmarkRows (snd (toggleBookmark n2 (snd (toggleBookmark n1 s u p)) u p)) u p \<le> 1"
    if a: "bookmarkRows s u p \<le> 1"
  proof -
    let ?s1 = "snd (toggleBookmark n1 s u p)"
    have r1: "bookmarkRows ?s1 u p = 1 - bookmarkRows s u p"
      using a by (rule bookmarkRows_toggleBookmark)
    then have le1: "bookmarkRows ?s1 u p \<le> 1" by simp
    have r2: "bookmarkRows (snd (toggleBookmark n2 ?s1 u p)) u p = 1 - bookmarkRows ?s1 u p"
      using le1 by (rule bookmarkRows_toggleBookmark)
    show ?thesis using a r1 r2 by (simp add: hasBookmark_rows) linarith
  qed
  have rs: "hasReaction (snd (toggleCommentReaction n2 (snd (toggleCommentReaction n1 s u c t)) u c t)) u c t
        = hasReaction s u c t
      \<and> (isReaction t \<longrightarrow>
           hasReaction (snd (toggleCommentReaction n1 s u c t)) u c t = (\<not> hasReaction s u c t))
      \<and> reactionRows (snd (toggleCommentReaction n1 s u c t)) u c t \<le> 1
      \<and> reactionRows (snd (toggleCommentReaction n2 (snd (toggleCommentReaction n1 s u c t)) u c t)) u c t
          \<le> 1"
    if a: "reactionRows s u c t \<le> 1"
  proof (cases "isReaction t")
    case True
    let ?s1 = "snd (toggleCommentReaction n1 s u c t)"
    have r1: "reactionRows ?s1 u c t = 1 - reactionRows s u c t"
      using True a by (rule reactionRows_toggleCommentReaction)
    then have le1: "reactionRows ?s1 u c t \<le> 1" by simp
    have r2: "reactionRows (snd (toggleCommentReaction n2 ?s1 u c t)) u c t
                = 1 - reactionRows ?s1 u c t"
      using True le1 by (rule reactionRows_toggleCommentReaction)
    show ?thesis using a r1 r2 by (simp add: hasReaction_rows) linarith
  next
    case False
    then show ?thesis using a by (simp add: toggleCommentReaction_invalid)
  qed
  have base: "likeRows baseState u p = 0" "bookmarkRows baseState u p = 0"
      "reactionRows baseState u c t = 0"
    by (simp_all add: likeRows_def bookmarkRows_def reactionRows_def baseState_def)
  show ?thesis
    using likes bms rs base toggleLike_unique [of s n1 u' p'] toggleBookmark_unique [of s n1 u' p']
      toggleCommentReaction_unique [of s n1 u' c' t']
    by blast
qed

theorem toggle_twice_restores_witness:
  "likeRows baseState 7 1 \<le> 1 \<and> bookmarkRows baseState 7 1 \<le> 1
   \<and> reactionRows baseState 7 4 ''fire'' \<le> 1 \<and> isReaction ''fire''
   \<and> hasLike (snd (toggleLike 10 baseState 7 1)) 7 1
   \<and> \<not> hasLike (snd (toggleLike 20 (snd (toggleLike 10 baseState 7 1)) 7 1)) 7 1
   \<and> hasBookmark (snd (toggleBookmark 10 baseState 7 1)) 7 1
   \<and> \<not> hasBookmark (snd (toggleBookmark 20 (snd (toggleBookmark 10 baseState 7 1)) 7 1)) 7 1
   \<and> hasReaction (snd (toggleCommentReaction 10 baseState 7 4 ''fire'')) 7 4 ''fire''
   \<and> \<not> hasReaction (snd (toggleCommentReaction 20
            (snd (toggleCommentReaction 10 baseState 7 4 ''fire'')) 7 4 ''fire'')) 7 4 ''fire''"
proof -
  have h: "likeRows baseState 7 1 \<le> 1" "bookmarkRows baseState 7 1 \<le> 1"
      "reactionRows baseState 7 4 ''fire'' \<le> 1" "isReaction ''fire''"
      "\<not> hasLike baseState 7 1" "\<not> hasBookmark baseState 7 1"
      "\<not> hasReaction baseState 7 4 ''fire''"
    by (simp_all add: likeRows_def bookmarkRows_def reactionRows_def baseState_def
        isReaction_def REACTIONS_def hasLike_def hasBookmark_def hasReaction_def)
  show ?thesis
    using h toggle_twice_restores [of baseState 7 1 20 10 4 "''fire''"] by simp
qed

text \<open>
  Claim C8 as stated fails in a store that already holds two like rows of the same user
  for the same post: the first toggle removes the row with id 1, the second the row with
  id 2, so the like that was present beforehand is absent after the two toggles.
\<close>

theorem toggle_twice_counterexample:
  "hasLike double_like_state 7 1
   \<and> likes (snd (toggleLike 10 double_like_state 7 1))
       = [\<lparr> l_id = 2, l_user_id = 7, l_post_id = 1, l_created_at = 2000 \<rparr>]
   \<and> likes (snd (toggleLike 20 (snd (toggleLike 10 double_like_state 7 1)) 7 1)) = []
   \<and> \<not> hasLike (snd (toggleLike 20 (snd (toggleLike 10 double_like_state 7 1)) 7 1)) 7 1"
  by (simp add: hasLike_def toggleLike_def double_like_state_def baseState_def)

subsection \<open>The life cycle of a report\<close>

lemma length_update_first [simp]: "length (update_first P f xs) = length xs"
  by (induction xs) auto

lemma nth_update_first:
  "i < length xs \<Longrightarrow> update_first P f xs ! i = xs ! i \<or> update_first P f xs ! i = f (xs ! i)"
proof (induction xs arbitrary: i)
  case Nil
  then show ?case by simp
next
  case (Cons x xs)
  then show ?case by (cases i) auto
qed

lemma status_rank_le2: "status_rank st \<le> 2"
  by (simp add: status_rank_def)

lemma report_step_forward:
  "length (reports (report_step s call)) = length (reports s)
   \<and> (\<forall>i<length (reports s).
         status_rank (r_status (reports s ! i))
           \<le> status_rank (r_status (reports (report_step s call) ! i)))"
proof (cases call)
  case (Assign reportId moderatorId)
  let ?f = "\<lambda>r. r\<lparr> r_assigned_to_user_id := Some moderatorId,
                     r_status := (if r_status r = ''open'' then ''in_review'' else r_status r) \<rparr>"
  have up: "status_rank (r_status x) \<le> status_rank (r_status (?f x))" for x
    by (simp add: status_rank_def)
  have "status_rank (r_status (reports s ! i))
          \<le> status_rank (r_status (update_first (\<lambda>r. r_id r = reportId) ?f (reports s) ! i))"
    if "i < length (reports s)" for i
    using nth_update_first [OF that, of "\<lambda>r. r_id r = reportId" ?f] up [of "reports s ! i"]
    by auto
  then show ?thesis
    using Assign by (simp add: assignReport_def Let_def split: option.splits)
next
  case (Resolve now reportId status)
  show ?thesis
  proof (cases "status \<in> set [''resolved'', ''dismissed'']")
    case True
    let ?f = "\<lambda>r. r\<lparr> r_status := status, r_resolved_at := Some now \<rparr>"
    have up: "status_rank (r_status x) \<le> status_rank (r_status (?f x))" for x
      using True status_rank_le2 [of "r_status x"] by (auto simp: status_rank_def)
    have "status_rank (r_status (reports s ! i))
            \<le> status_rank (r_status (update_first (\<lambda>r. r_id r = reportId) ?f (reports s) ! i))"
      if "i < length (reports s)" for i
      using nth_update_first [OF that, of "\<lambda>r. r_id r = reportId" ?f] up [of "reports s ! i"]
      by auto
    then show ?thesis
      using Resolve True by (simp add: resolveReport_def Let_def split: option.splits)
  next
    case False
    then show ?thesis
      using Resolve by (simp add: resolveReport_def Let_def split: option.splits)
  qed
qed

lemma report_run_forward:
  "length (reports (report_run s calls)) = length (reports s)
   \<and> (\<forall>i<length (reports s).
         status_rank (r_status (reports s ! i))
           \<le> status_rank (r_status (reports (report_run s calls) ! i)))"
proof (induction calls arbitrary: s)
  case Nil
  then show ?case by (simp add: report_run_def)
next
  case (Cons call calls)
  have run: "report_run s (call # calls) = report_run (report_step s call) calls"
    by (simp add: report_run_def)
  from report_step_forward [of s call] Cons.IH [of "report_step s call"]
  show ?case unfolding run by (metis le_trans)
qed

text \<open>
  Claim C3, as amended. \<open>assignReport\<close> records the moderator and turns the status \<open>open\<close>
  into \<open>in_review\<close>, leaving every other status as it is. \<open>resolveReport\<close> refuses every
  target status other than \<open>resolved\<close> and \<open>dismissed\<close> without changing the store; with
  one of these two it sets the status to the target and stamps \<open>resolved_at\<close>, whatever the
  current status is. Both return \<open>null\<close> and change nothing for an unknown report. Along
  every sequence of calls no report is added or removed and no status moves backwards in
  \<open>open < in_review < {resolved, dismissed}\<close>.
\<close>

theorem report_status_transitions:
  "(getReportById s reportId = Some r \<longrightarrow>
      (\<exists>i<length (reports s). reports s ! i = r
         \<and> assignReport s reportId moderatorId =
             (Some (r\<lparr> r_assigned_to_user_id := Some moderatorId,
                        r_status := (if r_status r = ''open'' then ''in_review'' else r_status r) \<rparr>),
              s\<lparr>reports := (reports s)[i := r\<lparr> r_assigned_to_user_id := Some moderatorId,
                        r_status := (if r_status r = ''open'' then ''in_review'' else r_status r) \<rparr>]\<rparr>)
         \<and> (status = ''resolved'' \<or> status = ''dismissed'' \<longrightarrow>
               resolveReport now s reportId status =
                 (Some (r\<lparr> r_status := status, r_resolved_at := Some now \<rparr>),
                  s\<lparr>reports := (reports s)[i := r\<lparr> r_status := status, r_resolved_at := Some now \<rparr>]\<rparr>))))
   \<and> (status \<noteq> ''resolved'' \<and> status \<noteq> ''dismissed'' \<longrightarrow>
         resolveReport now s reportId status = (None, s))
   \<and> (getReportById s reportId = None \<longrightarrow>
         assignReport s reportId moderatorId = (None, s)
         \<and> resolveReport now s reportId status = (None, s))
   \<and> length (reports (report_run s calls)) = length (reports s)
   \<and> (\<forall>i<length (reports s).
         status_rank (r_status (reports s ! i))
           \<le> status_rank (r_status (reports (report_run s calls) ! i)))"
proof -
  have found: "\<exists>i<length (reports s). reports s ! i = r
         \<and> assignReport s reportId moderatorId =
             (Some (r\<lparr> r_assigned_to_user_id := Some moderatorId,
                        r_status := (if r_status r = ''open'' then ''in_review'' else r_status r) \<rparr>),
              s\<lparr>reports := (reports s)[i := r\<lparr> r_assigned_to_user_id := Some moderatorId,
                        r_status := (if r_status r = ''open'' then ''in_review'' else r_status r) \<rparr>]\<rparr>)
         \<and> (status = ''resolved'' \<or> status = ''dismissed'' \<longrightarrow>
               resolveReport now s reportId status =
                 (Some (r\<lparr> r_status := status, r_resolved_at := Some now \<rparr>),
                  s\<lparr>reports := (reports s)[i := r\<lparr> r_status := status, r_resolved_at := Some now \<rparr>]\<rparr>))"
    if g: "getReportById s reportId = Some r"
  proof -
    let ?P = "\<lambda>r. r_id r = reportId"
    from g have "find ?P (reports s) = Some r" by (simp add: getReportById_def)
    then obtain i where i: "i < length (reports s)" "reports s ! i = r" "?P (reports s ! i)"
        "\<forall>j<i. \<not> ?P (reports s ! j)"
      by (auto simp: find_Some_iff)
    have u: "update_first ?P f (reports s) = (reports s)[i := f r]" for f
      using update_first_nth [of i "reports s" ?P f] i by simp
    show ?thesis
      using i(1,2) g
      by (intro exI [of _ i]) (auto simp: assignReport_def resolveReport_def Let_def u)
  qed
  have refused: "resolveReport now s reportId status = (None, s)"
    if "status \<noteq> ''resolved'' \<and> status \<noteq> ''dismissed''"
    using that by (simp add: resolveReport_def Let_def split: option.splits)
  have unknown: "assignReport s reportId moderatorId = (None, s)
         \<and> resolveReport now s reportId status = (None, s)"
    if "getReportById s reportId = None"
    using that by (simp add: assignReport_def resolveReport_def Let_def)
  show ?thesis
    using found refused unknown report_run_forward [of s calls] by blast
qed

theorem report_status_transitions_witness:
  "getReportById report_state 1 = Some report1
   \<and> ''deleted'' \<noteq> ''resolved'' \<and> ''deleted'' \<noteq> ''dismissed''
   \<and> getReportById report_state 2 = None
   \<and> snd (assignReport report_state 1 9)
       = report_state\<lparr>reports := [report1\<lparr> r_assigned_to_user_id := Some 9, r_status := ''in_review'' \<rparr>]\<rparr>
   \<and> snd (resolveReport 50 report_state 1 ''deleted'') = report_state
   \<and> map r_status (reports (report_run report_state [Assign 1 9, Resolve 50 1 ''dismissed'']))
       = [''dismissed'']
   \<and> status_rank (r_status (reports report_state ! 0))
       \<le> status_rank (r_status
            (reports (report_run report_state [Assign 1 9, Resolve 50 1 ''dismissed'']) ! 0))"
  using report_status_transitions
    [of report_state 1 report1 9 "''deleted''" 50 "[Assign 1 9, Resolve 50 1 ''dismissed'']"]
  by (simp add: getReportById_def assignReport_def resolveReport_def report_run_def
      report_state_def report1_def baseState_def Let_def status_rank_def)

text \<open>
  Claim C3 as stated fails: \<open>resolveReport\<close> does not look at the current status. The open
  report 1 is resolved without having been in review, and the resolved report then
  becomes dismissed.
\<close>

theorem report_terminal_counterexample:
  "map r_status (reports report_state) = [''open'']
   \<and> map r_status (reports (report_run report_state [Resolve 50 1 ''resolved''])) = [''resolved'']
   \<and> map r_status (reports (report_run report_state
          [Resolve 50 1 ''resolved'', Resolve 60 1 ''dismissed''])) = [''dismissed'']"
  by (simp add: getReportById_def resolveReport_def report_run_def report_state_def
      report1_def baseState_def Let_def)

subsection \<open>Trending posts\<close>

lemma set_slice_subset: "set (slice xs a b) \<subseteq> set xs"
  unfolding slice_def Let_def by (meson set_take_subset set_drop_subset subset_trans)

lemma trendingItem_posts_irrelevant [simp]:
  "trendingItem (s\<lparr>posts := ps\<rparr>) = trendingItem s"
  by (rule ext) (simp add: trendingItem_def getUserById_def countLikes_def)

lemma trending_origin:
  assumes "row \<in> set (getTrendingPosts s limit)"
  shows "\<exists>p\<in>set (posts s). \<not> p_is_hidden p \<and> row = trendingRow (trendingItem s p)"
proof -
  let ?key = "\<lambda>t. (- ti_like_count t, - ti_created_at t)"
  let ?items = "map (trendingItem s) (filter (\<lambda>p. \<not> p_is_hidden p) (posts s))"
  from assms obtain t where t: "t \<in> set (slice (sort_key ?key ?items) 0 limit)"
      and row: "row = trendingRow t"
    by (auto simp: getTrendingPosts_def)
  from t have "t \<in> set (sort_key ?key ?items)" using set_slice_subset by fastforce
  then have "t \<in> set ?items" by simp
  then show ?thesis using row by auto
qed

text \<open>
  Claim C10. Every row returned by \<open>getTrendingPosts\<close> is built from a post of the store
  whose \<open>is_hidden\<close> flag is not set; the result is the one obtained after removing the
  hidden posts from the store, and it is empty when every post is hidden. The function
  has no viewer argument. Where post ids are distinct, the id of a hidden post does not
  occur in the result.
\<close>

theorem trending_excludes_hidden:
  "(\<forall>row\<in>set (getTrendingPosts s limit).
      \<exists>p\<in>set (posts s). \<not> p_is_hidden p \<and> row = trendingRow (trendingItem s p))
   \<and> getTrendingPosts (s\<lparr>posts := filter (\<lambda>p. \<not> p_is_hidden p) (posts s)\<rparr>) limit
       = getTrendingPosts s limit
   \<and> ((\<forall>p\<in>set (posts s). p_is_hidden p) \<longrightarrow> getTrendingPosts s limit = [])
   \<and> (distinct (map p_id (posts s)) \<longrightarrow>
        (\<forall>p\<in>set (posts s). p_is_hidden p \<longrightarrow> p_id p \<notin> tr_id ` set (getTrendingPosts s limit)))"
proof -
  have a: "\<forall>row\<in>set (getTrendingPosts s limit).
      \<exists>p\<in>set (posts s). \<not> p_is_hidden p \<and> row = trendingRow (trendingItem s p)"
    using trending_origin by blast
  have b: "getTrendingPosts (s\<lparr>posts := filter (\<lambda>p. \<not> p_is_hidden p) (posts s)\<rparr>) limit
       = getTrendingPosts s limit"
    by (simp add: getTrendingPosts_def)
  have c: "getTrendingPosts s limit = []" if "\<forall>p\<in>set (posts s). p_is_hidden p"
  proof -
    from that have "filter (\<lambda>p. \<not> p_is_hidden p) (posts s) = []" by (simp add: filter_empty_conv)
    then show ?thesis by (simp add: getTrendingPosts_def slice_def)
  qed
  have d: "p_id p \<notin> tr_id ` set (getTrendingPosts s limit)"
    if dist: "distinct (map p_id (posts s))" and p: "p \<in> set (posts s)" "p_is_hidden p" for p
  proof
    assume "p_id p \<in> tr_id ` set (getTrendingPosts s limit)"
    then obtain row where "row \<in> set (getTrendingPosts s limit)" "tr_id row = p_id p" by auto
    with a obtain q where q: "q \<in> set (posts s)" "\<not> p_is_hidden q" "p_id q = p_id p"
      by (auto simp: trendingRow_def trendingItem_def)
    from dist have "inj_on p_id (set (posts s))" by (simp add: distinct_map)
    with q p have "q = p" by (auto dest: inj_onD)
    with q p show False by simp
  qed
  show ?thesis using a b c d by blast
qed

theorem trending_excludes_hidden_witness:
  "distinct (map p_id (posts feed_state)) \<and> post1 \<in> set (posts feed_state) \<and> p_is_hidden post1
   \<and> getTrendingPosts feed_state 5
       = [\<lparr> tr_id = 2, tr_title = ''Street portraits'', tr_author_username = ''ann'',
             tr_like_count = 0 \<rparr>]
   \<and> p_id post1 \<notin> tr_id ` set (getTrendingPosts feed_state 5)
   \<and> getTrendingPosts (feed_state\<lparr>posts := [post1]\<rparr>) 5 = []"
proof -
  have e: "getTrendingPosts feed_state 5
       = [\<lparr> tr_id = 2, tr_title = ''Street portraits'', tr_author_username = ''ann'',
             tr_like_count = 0 \<rparr>]"
    by (simp add: getTrendingPosts_def trendingRow_def trendingItem_def getUserById_def
        countLikes_def slice_def relIndex_def feed_state_def baseState_def post1_def post2_def
        ann_def)
  have h: "distinct (map p_id (posts feed_state))" "post1 \<in> set (posts feed_state)"
      "p_is_hidden post1" "\<forall>p\<in>set (posts (feed_state\<lparr>posts := [post1]\<rparr>)). p_is_hidden p"
    by (simp_all add: feed_state_def baseState_def post1_def post2_def)
  show ?thesis
    using e h trending_excludes_hidden [of feed_state 5]
      trending_excludes_hidden [of "feed_state\<lparr>posts := [post1]\<rparr>" 5]
    by simp
qed

subsection \<open>Visible comments\<close>

lemma prefix_dot_less:
  fixes p r :: string
  assumes "prefix (p @ ''.'') r"
  shows "p < r"
proof -
  from assms obtain t where "r = p @ (CHR ''.'' # t)" by (auto simp: prefix_def)
  then show ?thesis by (simp add: list_less_def lexord_append_rightI)
qed

lemma hiddenStep_cases:
  "hiddenStep vw (hp, vis) x =
     (if \<exists>q\<in>set hp. prefix q (c_path x) then (hp, vis)
      else if hiddenFrom vw x then (hp @ [c_path x @ ''.''], vis)
      else (hp, vis @ [x]))"
  by (simp add: hiddenStep_def hiddenFrom_def list_ex_iff)

text \<open>
  What the loop does to its two arrays: both only grow, every new prefix comes from a
  comment hidden from the viewer, and every new visible comment was neither hidden from
  the viewer nor below a prefix that was present at the start.
\<close>

lemma hidden_loop_inv:
  "foldl (hiddenStep vw) (hp, vis) xs = (hp', vis')
   \<Longrightarrow> set hp \<subseteq> set hp' \<and> set vis \<subseteq> set vis'
     \<and> (\<forall>q\<in>set hp'. q \<in> set hp \<or> (\<exists>a\<in>set xs. hiddenFrom vw a \<and> q = c_path a @ ''.''))
     \<and> (\<forall>c\<in>set vis'. c \<in> set vis
           \<or> (c \<in> set xs \<and> \<not> hiddenFrom vw c \<and> \<not> (\<exists>q\<in>set hp. prefix q (c_path c))))"
proof (induction xs arbitrary: hp vis)
  case Nil
  then show ?case by auto
next
  case (Cons x xs)
  obtain hp1 vis1 where step: "hiddenStep vw (hp, vis) x = (hp1, vis1)"
    by (cases "hiddenStep vw (hp, vis) x")
  with Cons.prems have rest: "foldl (hiddenStep vw) (hp1, vis1) xs = (hp', vis')" by simp
  note ih = Cons.IH [OF rest]
  from step have s1: "set hp \<subseteq> set hp1" "set vis \<subseteq> set vis1"
    and s2: "\<forall>q\<in>set hp1. q \<in> set hp \<or> (hiddenFrom vw x \<and> q = c_path x @ ''.'')"
    and s3: "\<forall>c\<in>set vis1. c \<in> set vis
               \<or> (c = x \<and> \<not> hiddenFrom vw c \<and> \<not> (\<exists>q\<in>set hp. prefix q (c_path c)))"
    by (auto simp: hiddenStep_cases split: if_splits)
  have a: "set hp \<subseteq> set hp'" "set vis \<subseteq> set vis'" using ih s1 by auto
  have b: "\<forall>q\<in>set hp'. q \<in> set hp \<or> (\<exists>a\<in>set (x # xs). hiddenFrom vw a \<and> q = c_path a @ ''.'')"
    using ih s2 by fastforce
  have c: "\<forall>c\<in>set vis'. c \<in> set vis
           \<or> (c \<in> set (x # xs) \<and> \<not> hiddenFrom vw c \<and> \<not> (\<exists>q\<in>set hp. prefix q (c_path c)))"
  proof
    fix c assume "c \<in> set vis'"
    with ih have "c \<in> set vis1
        \<or> (c \<in> set xs \<and> \<not> hiddenFrom vw c \<and> \<not> (\<exists>q\<in>set hp1. prefix q (c_path c)))"
      by blast
    then show "c \<in> set vis
           \<or> (c \<in> set (x # xs) \<and> \<not> hiddenFrom vw c \<and> \<not> (\<exists>q\<in>set hp. prefix q (c_path c)))"
      using s1 s3 by auto
  qed
  show ?case using a b c by blast
qed

text \<open>
  Once the loop has met a comment hidden from the viewer, nothing below it is added.
\<close>

lemma hidden_loop_blocks:
  assumes bad: "hiddenFrom vw a" and below: "prefix (c_path a @ ''.'') (c_path c)"
    and fresh: "c \<notin> set vis"
  shows "c \<notin> set (snd (foldl (hiddenStep vw) (hp, vis) (a # ys)))"
proof -
  obtain hp1 where step: "hiddenStep vw (hp, vis) a = (hp1, vis)"
      and blocked: "\<exists>q\<in>set hp1. prefix q (c_path c)"
  proof (cases "\<exists>q\<in>set hp. prefix q (c_path a)")
    case True
    then obtain q where q: "q \<in> set hp" "prefix q (c_path a)" by blast
    have "prefix (c_path a) (c_path c)" using below by (meson append_prefixD)
    with q have "prefix q (c_path c)" by (meson prefix_order.trans)
    with q True that [of hp] show ?thesis by (auto simp: hiddenStep_cases)
  next
    case False
    with bad below that [of "hp @ [c_path a @ ''.'']"] show ?thesis
      by (auto simp: hiddenStep_cases)
  qed
  obtain hp' vis' where fin: "foldl (hiddenStep vw) (hp1, vis) ys = (hp', vis')"
    by (cases "foldl (hiddenStep vw) (hp1, vis) ys")
  from hidden_loop_inv [OF fin] blocked fresh have "c \<notin> set vis'" by blast
  then show ?thesis using step fin by simp
qed

text \<open>
  A comment that is not hidden from the viewer and lies below no collected prefix and
  below no comment of the list that is hidden from the viewer is added.
\<close>

lemma hidden_loop_keeps:
  "c \<in> set xs \<Longrightarrow> \<not> hiddenFrom vw c \<Longrightarrow> \<forall>q\<in>set hp. \<not> prefix q (c_path c)
   \<Longrightarrow> \<forall>a\<in>set xs. hiddenFrom vw a \<longrightarrow> \<not> prefix (c_path a @ ''.'') (c_path c)
   \<Longrightarrow> c \<in> set (snd (foldl (hiddenStep vw) (hp, vis) xs))"
proof (induction xs arbitrary: hp vis)
  case Nil
  then show ?case by simp
next
  case (Cons x xs)
  obtain hp1 vis1 where step: "hiddenStep vw (hp, vis) x = (hp1, vis1)"
    by (cases "hiddenStep vw (hp, vis) x")
  obtain hp' vis' where fin: "foldl (hiddenStep vw) (hp1, vis1) xs = (hp', vis')"
    by (cases "foldl (hiddenStep vw) (hp1, vis1) xs")
  have res: "snd (foldl (hiddenStep vw) (hp, vis) (x # xs)) = vis'" using step fin by simp
  from step Cons.prems(4) have free: "\<forall>q\<in>set hp1. \<not> prefix q (c_path c)"
    using Cons.prems(3) by (auto simp: hiddenStep_cases split: if_splits)
  show ?case
  proof (cases "c = x")
    case True
    with step Cons.prems(2,3) have "c \<in> set vis1" by (auto simp: hiddenStep_cases)
    with hidden_loop_inv [OF fin] show ?thesis unfolding res by blast
  next
    case False
    with Cons.prems(1) have "c \<in> set xs" by simp
    then have "c \<in> set (snd (foldl (hiddenStep vw) (hp1, vis1) xs))"
      using Cons.prems(2,4) free by (intro Cons.IH) auto
    then show ?thesis using step by simp
  qed
qed

lemma hasHiddenAncestor_iff:
  "hasHiddenAncestor s postId vw c \<longleftrightarrow>
     (\<exists>a\<in>set (comments s). c_post_id a = postId \<and> hiddenFrom vw a
                             \<and> prefix (c_path a @ ''.'') (c_path c))"
  by (simp add: hasHiddenAncestor_def list_ex_iff)

lemma visible_sound:
  assumes "c \<in> set (getVisibleCommentsForPost s postId vw)"
  shows "c \<in> set (comments s) \<and> c_post_id c = postId \<and> \<not> hiddenFrom vw c
         \<and> \<not> hasHiddenAncestor s postId vw c"
proof -
  let ?key = "\<lambda>c. (c_path c, c_created_at c)"
  let ?cs = "sort_key ?key (filter (\<lambda>c. c_post_id c = postId) (comments s))"
  obtain hp' vis' where fin: "foldl (hiddenStep vw) ([], []) ?cs = (hp', vis')"
    by (cases "foldl (hiddenStep vw) ([], []) ?cs")
  with assms have cv: "c \<in> set vis'" by (simp add: getVisibleCommentsForPost_def)
  from hidden_loop_inv [OF fin] cv have c: "c \<in> set ?cs" "\<not> hiddenFrom vw c" by auto
  then have c1: "c \<in> set (comments s)" "c_post_id c = postId" by auto
  have "\<not> hasHiddenAncestor s postId vw c"
  proof
    assume "hasHiddenAncestor s postId vw c"
    then obtain a where a: "a \<in> set (comments s)" "c_post_id a = postId" "hiddenFrom vw a"
        "prefix (c_path a @ ''.'') (c_path c)"
      by (auto simp: hasHiddenAncestor_iff)
    then have "a \<in> set ?cs" by simp
    then obtain xs ys where split: "?cs = xs @ a # ys" by (meson split_list)
    have "sorted (map ?key ?cs)" by (rule sorted_sort_key)
    then have le: "\<forall>x\<in>set xs. ?key x \<le> ?key a"
      unfolding split by (auto simp: sorted_append)
    have "c_path a < c_path c" using a(4) by (rule prefix_dot_less)
    then have lt: "?key a < ?key c" by simp
    have "c \<notin> set xs"
    proof
      assume "c \<in> set xs"
      with le have "?key c \<le> ?key a" by blast
      with lt show False by (meson leD)
    qed
    obtain hp0 vis0 where pre: "foldl (hiddenStep vw) ([], []) xs = (hp0, vis0)"
      by (cases "foldl (hiddenStep vw) ([], []) xs")
    from hidden_loop_inv [OF pre] \<open>c \<notin> set xs\<close> have "c \<notin> set vis0" by auto
    then have nin: "c \<notin> set (snd (foldl (hiddenStep vw) (hp0, vis0) (a # ys)))"
      using a(3,4) by (intro hidden_loop_blocks) auto
    have eq: "foldl (hiddenStep vw) ([], []) ?cs = foldl (hiddenStep vw) (hp0, vis0) (a # ys)"
      unfolding split using pre by simp
    from nin have "c \<notin> set (snd (foldl (hiddenStep vw) ([], []) ?cs))" unfolding eq .
    then have "c \<notin> set vis'" unfolding fin snd_conv .
    with cv show False by contradiction
  qed
  with c c1 show ?thesis by simp
qed

lemma visible_complete:
  assumes "c \<in> set (comments s)" and "c_post_id c = postId" and "\<not> hiddenFrom vw c"
    and "\<not> hasHiddenAncestor s postId vw c"
  shows "c \<in> set (getVisibleCommentsForPost s postId vw)"
proof -
  let ?key = "\<lambda>c. (c_path c, c_created_at c)"
  let ?cs = "sort_key ?key (filter (\<lambda>c. c_post_id c = postId) (comments s))"
  have "c \<in> set ?cs" using assms(1,2) by simp
  moreover have "\<forall>a\<in>set ?cs. hiddenFrom vw a \<longrightarrow> \<not> prefix (c_path a @ ''.'') (c_path c)"
    using assms(4) by (auto simp: hasHiddenAncestor_iff)
  ultimately have "c \<in> set (snd (foldl (hiddenStep vw) ([], []) ?cs))"
    using assms(3) by (intro hidden_loop_keeps) auto
  then show ?thesis by (simp add: getVisibleCommentsForPost_def)
qed

text \<open>
  Claim C1, as amended. The list returned for a post and a viewer (anonymous, ordinary
  user, author or moderator) consists of exactly those comments of the post that are not
  hidden from the viewer and lie below no comment of the post that is hidden from the
  viewer. So it never contains a comment with such an ancestor, and it contains every
  comment of the post that the viewer wrote, hidden or not, unless that comment lies below
  a comment of the post that is hidden from the viewer.
\<close>

theorem visible_comments_characterised:
  "(\<forall>c\<in>set (getVisibleCommentsForPost s postId vw).
      c \<in> set (comments s) \<and> c_post_id c = postId \<and> \<not> hiddenFrom vw c
      \<and> \<not> hasHiddenAncestor s postId vw c)
   \<and> (\<forall>c\<in>set (comments s).
        c_post_id c = postId \<and> \<not> hiddenFrom vw c \<and> \<not> hasHiddenAncestor s postId vw c
        \<longrightarrow> c \<in> set (getVisibleCommentsForPost s postId vw))
   \<and> (\<forall>v. vw = Some v \<longrightarrow>
        (\<forall>c\<in>set (comments s).
           c_post_id c = postId \<and> c_user_id c = v_id v \<and> \<not> hasHiddenAncestor s postId vw c
           \<longrightarrow> c \<in> set (getVisibleCommentsForPost s postId vw)))"
proof -
  have own: "\<not> hiddenFrom (Some v) c" if "c_user_id c = v_id v" for v c
    using that by (simp add: hiddenFrom_def canViewHidden_def)
  show ?thesis
    using visible_sound [of _ s postId vw] visible_complete [of _ s postId vw] own
    by blast
qed

theorem visible_comments_characterised_witness:
  "reply2\<lparr> c_is_hidden := True, c_hidden_reason := ''spam'' \<rparr> \<in> set (comments reply_hidden_state)
   \<and> c_post_id (reply2\<lparr> c_is_hidden := True, c_hidden_reason := ''spam'' \<rparr>) = 1
   \<and> c_user_id (reply2\<lparr> c_is_hidden := True, c_hidden_reason := ''spam'' \<rparr>) = v_id viewer3
   \<and> \<not> hasHiddenAncestor reply_hidden_state 1 (Some viewer3)
         (reply2\<lparr> c_is_hidden := True, c_hidden_reason := ''spam'' \<rparr>)
   \<and> getVisibleCommentsForPost reply_hidden_state 1 (Some viewer3)
       = [root1, reply2\<lparr> c_is_hidden := True, c_hidden_reason := ''spam'' \<rparr>]
   \<and> getVisibleCommentsForPost reply_hidden_state 1 None = [root1]"
proof -
  have e: "getVisibleCommentsForPost reply_hidden_state 1 (Some viewer3)
       = [root1, reply2\<lparr> c_is_hidden := True, c_hidden_reason := ''spam'' \<rparr>]"
    "getVisibleCommentsForPost reply_hidden_state 1 None = [root1]"
    by (simp_all add: getVisibleCommentsForPost_def hiddenStep_def canViewHidden_def
        isModeratorRole_def reply_hidden_state_def thread_state_def baseState_def root1_def
        reply2_def viewer3_def)
  have h: "reply2\<lparr> c_is_hidden := True, c_hidden_reason := ''spam'' \<rparr> \<in> set (comments reply_hidden_state)"
    "c_post_id (reply2\<lparr> c_is_hidden := True, c_hidden_reason := ''spam'' \<rparr>) = 1"
    "c_user_id (reply2\<lparr> c_is_hidden := True, c_hidden_reason := ''spam'' \<rparr>) = v_id viewer3"
    "\<not> hasHiddenAncestor reply_hidden_state 1 (Some viewer3)
         (reply2\<lparr> c_is_hidden := True, c_hidden_reason := ''spam'' \<rparr>)"
    by (simp_all add: hasHiddenAncestor_def hiddenFrom_def canViewHidden_def isModeratorRole_def
        reply_hidden_state_def thread_state_def baseState_def root1_def reply2_def viewer3_def)
  show ?thesis
    using e h visible_comments_characterised [of reply_hidden_state 1 "Some viewer3"]
    by simp
qed

text \<open>
  Claim C1 as stated fails in its second half. After a moderator has hidden the root
  comment of user 2 and the reply of user 3, user 3 (an ordinary user) is not shown the
  reply they wrote: the root is hidden from them, so its whole subtree is skipped.
\<close>

theorem own_hidden_comment_counterexample:
  "reply2\<lparr> c_is_hidden := True, c_hidden_reason := ''spam'' \<rparr> \<in> set (comments hidden_thread_state)
   \<and> c_post_id (reply2\<lparr> c_is_hidden := True, c_hidden_reason := ''spam'' \<rparr>) = 1
   \<and> c_is_hidden (reply2\<lparr> c_is_hidden := True, c_hidden_reason := ''spam'' \<rparr>)
   \<and> c_user_id (reply2\<lparr> c_is_hidden := True, c_hidden_reason := ''spam'' \<rparr>) = v_id viewer3
   \<and> getVisibleCommentsForPost hidden_thread_state 1 (Some viewer3) = []"
  by (simp add: getVisibleCommentsForPost_def hiddenStep_def canViewHidden_def isModeratorRole_def
      hidden_thread_state_def thread_state_def baseState_def root1_def reply2_def viewer3_def)

section \<open>Properties of the migration\<close>

subsection \<open>Strings\<close>

lemma code_A: "(of_char CHR ''A'' :: nat) = 65" by simp
lemma code_Z: "(of_char CHR ''Z'' :: nat) = 90" by simp

lemma upper_code:
  "CHR ''A'' \<le> c \<and> c \<le> CHR ''Z'' \<longleftrightarrow> 65 \<le> (of_char c :: nat) \<and> (of_char c :: nat) \<le> 90"
  unfolding less_eq_char_def code_A code_Z ..

lemma lower_code:
  "(of_char (toLowerCase_char c) :: nat) =
     (if 65 \<le> (of_char c :: nat) \<and> (of_char c :: nat) \<le> 90 then of_char c + 32 else of_char c)"
proof (cases "65 \<le> (of_char c :: nat) \<and> (of_char c :: nat) \<le> 90")
  case True
  then have "toLowerCase_char c = char_of (of_char c + (32::nat))"
    unfolding toLowerCase_char_def upper_code by simp
  moreover have "(of_char c + (32::nat)) mod 256 = of_char c + 32" using True by simp
  ultimately show ?thesis using True by simp
next
  case False
  then have "toLowerCase_char c = c" unfolding toLowerCase_char_def upper_code by auto
  then show ?thesis using False by auto
qed

lemma char_eq_code: "c = d \<longleftrightarrow> (of_char c :: nat) = of_char d"
  by simp

lemma toLowerCase_char_idem: "toLowerCase_char (toLowerCase_char c) = toLowerCase_char c"
  unfolding char_eq_code [of "toLowerCase_char (toLowerCase_char c)"] lower_code [of "toLowerCase_char c"]
  by (simp add: lower_code)

lemma is_space_code:
  "is_space c \<longleftrightarrow> (of_char c :: nat) \<in> {9, 10, 11, 12, 13, 32}"
  unfolding is_space_def by (auto simp: char_eq_code [of c])

lemma is_space_lower: "is_space (toLowerCase_char c) = is_space c"
  unfolding is_space_code lower_code by auto

lemma is_alnum_code:
  "is_alnum c \<longleftrightarrow> (97 \<le> (of_char c :: nat) \<and> (of_char c :: nat) \<le> 122)
                     \<or> (48 \<le> (of_char c :: nat) \<and> (of_char c :: nat) \<le> 57)"
  unfolding is_alnum_def less_eq_char_def by simp

lemma lower_alnum: "is_alnum c \<Longrightarrow> toLowerCase_char c = c"
  unfolding char_eq_code [of "toLowerCase_char c"] lower_code is_alnum_code by auto

lemma alnum_not_space: "is_alnum c \<Longrightarrow> \<not> is_space c"
  unfolding is_space_code is_alnum_code by auto

lemma dash_props: "\<not> is_alnum CHR ''-''" "\<not> is_space CHR ''-''" "toLowerCase_char CHR ''-'' = CHR ''-''"
   "is_space CHR '' ''"
  by (simp_all add: is_alnum_def is_space_def toLowerCase_char_def)

text \<open>Stripping both ends.\<close>

lemma dropWhile_id_iff: "dropWhile P xs = xs \<longleftrightarrow> xs = [] \<or> \<not> P (hd xs)"
proof (cases xs)
  case Nil
  then show ?thesis by simp
next
  case (Cons a as)
  have "dropWhile P as \<noteq> a # as"
  proof
    assume "dropWhile P as = a # as"
    then have "length (dropWhile P as) = Suc (length as)" by simp
    with length_dropWhile_le [of P as] show False by simp
  qed
  with Cons show ?thesis by simp
qed

lemma strip_both_decomp: "\<exists>r. dropWhile P s = strip_both P s @ r"
proof -
  have "rev (dropWhile P s) = takeWhile P (rev (dropWhile P s)) @ dropWhile P (rev (dropWhile P s))"
    by simp
  then have "dropWhile P s = rev (dropWhile P (rev (dropWhile P s))) @ rev (takeWhile P (rev (dropWhile P s)))"
    by (metis rev_append rev_rev_ident)
  then show ?thesis unfolding strip_both_def by blast
qed

lemma set_strip_both: "set (strip_both P s) \<subseteq> set s"
proof -
  have "set (strip_both P s) \<subseteq> set (dropWhile P s)"
    unfolding strip_both_def by (metis set_dropWhileD set_rev subsetI)
  then show ?thesis by (meson set_dropWhileD subsetD subsetI)
qed

lemma strip_both_clean: "\<forall>c\<in>set s. \<not> P c \<Longrightarrow> strip_both P s = s"
proof -
  assume a: "\<forall>c\<in>set s. \<not> P c"
  then have 1: "dropWhile P s = s" by (cases s) auto
  from a have "\<forall>c\<in>set (rev s). \<not> P c" by simp
  then have 2: "dropWhile P (rev s) = rev s" by (cases "rev s") auto
  show ?thesis unfolding strip_both_def 1 2 by simp
qed

lemma strip_both_idem: "strip_both P (strip_both P s) = strip_both P s"
proof -
  let ?y = "dropWhile P s"
  let ?z = "dropWhile P (rev ?y)"
  let ?t = "rev ?z"
  have t: "strip_both P s = ?t" by (simp add: strip_both_def)
  obtain r where r: "?y = ?t @ r" using strip_both_decomp [of P s] unfolding t by blast
  have "dropWhile P ?t = ?t"
  proof (cases "?t = []")
    case True
    show ?thesis unfolding True by simp
  next
    case False
    then have "hd ?t = hd ?y" using r by (metis hd_append2)
    moreover have "?y \<noteq> []" using False r by (metis append_is_Nil_conv)
    then have "\<not> P (hd ?y)" by (rule hd_dropWhile)
    ultimately show ?thesis using False by (simp add: dropWhile_id_iff)
  qed
  then have "strip_both P ?t = rev (dropWhile P (rev ?t))" by (simp only: strip_both_def)
  also have "\<dots> = ?t" by simp
  finally show ?thesis unfolding t .
qed

lemma strip_both_map:
  assumes "\<And>c. P (f c) = P c"
  shows "map f (strip_both P s) = strip_both P (map f s)"
proof -
  have d: "dropWhile P (map f xs) = map f (dropWhile P xs)" for xs
    using assms by (induction xs) auto
  show ?thesis unfolding strip_both_def by (simp add: d rev_map)
qed

text \<open>Replacing runs.\<close>

lemma length_replace_runs: "length (replace_runs P r s) \<le> length s"
proof (induction P r s rule: replace_runs.induct)
  case (1 P r)
  then show ?case by simp
next
  case (2 P r c cs)
  have "length (dropWhile P cs) \<le> length cs" by (rule length_dropWhile_le)
  with 2 show ?case by auto
qed

lemma set_replace_runs: "set (replace_runs P r s) \<subseteq> insert r {c \<in> set s. \<not> P c}"
proof (induction P r s rule: replace_runs.induct)
  case (1 P r)
  then show ?case by simp
next
  case (2 P r c cs)
  have "set (dropWhile P cs) \<subseteq> set cs" by (meson set_dropWhileD subsetI)
  with 2 show ?case by auto
qed

lemma replace_runs_head:
  "s = [] \<or> \<not> P (hd s) \<Longrightarrow> dropWhile P (replace_runs P r s) = replace_runs P r s"
  by (cases s) auto

lemma replace_runs_idem:
  "P r \<Longrightarrow> replace_runs P r (replace_runs P r s) = replace_runs P r s"
proof (induction P r s rule: replace_runs.induct)
  case (1 P r)
  then show ?case by simp
next
  case (2 P r c cs)
  show ?case
  proof (cases "P c")
    case True
    let ?w = "dropWhile P cs"
    have "?w = [] \<or> \<not> P (hd ?w)" by (metis hd_dropWhile)
    then have "dropWhile P (replace_runs P r ?w) = replace_runs P r ?w"
      by (rule replace_runs_head)
    then show ?thesis using True 2 by simp
  next
    case False
    then show ?thesis using 2 by simp
  qed
qed

lemma replace_runs_fixed_head:
  assumes "replace_runs P r (c # x) = c # x" and "P c"
  shows "c = r \<and> dropWhile P x = x \<and> replace_runs P r x = x"
proof -
  from assms have c: "c = r" and e: "replace_runs P r (dropWhile P x) = x" by auto
  have "length x \<le> length (dropWhile P x)"
    using length_replace_runs [of P r "dropWhile P x"] unfolding e .
  then have "length (dropWhile P x) = length x" using length_dropWhile_le [of P x] by simp
  then have "length (takeWhile P x) = 0"
    using takeWhile_dropWhile_id [of P x]
    by (metis add_cancel_right_left add.commute length_append)
  then have "dropWhile P x = x" using takeWhile_dropWhile_id [of P x] by (metis append_Nil length_0_conv)
  with c e show ?thesis by simp
qed

lemma replace_runs_fixed_prefix:
  "replace_runs P r (xs @ ys) = xs @ ys \<Longrightarrow> replace_runs P r xs = xs"
proof (induction xs)
  case Nil
  then show ?case by simp
next
  case (Cons c xs)
  show ?case
  proof (cases "P c")
    case True
    from replace_runs_fixed_head [of P r c "xs @ ys"] Cons.prems True
    have c: "c = r" and d: "dropWhile P (xs @ ys) = xs @ ys"
      and f: "replace_runs P r (xs @ ys) = xs @ ys" by auto
    from f have ih: "replace_runs P r xs = xs" by (rule Cons.IH)
    have "dropWhile P xs = xs"
    proof (cases xs)
      case Nil
      then show ?thesis by simp
    next
      case (Cons a as)
      from d have "xs @ ys = [] \<or> \<not> P (hd (xs @ ys))" by (simp only: dropWhile_id_iff)
      with Cons have "\<not> P a" by simp
      with Cons show ?thesis by simp
    qed
    then show ?thesis using True c ih by simp
  next
    case False
    with Cons.prems have "replace_runs P r (xs @ ys) = xs @ ys" by simp
    then have "replace_runs P r xs = xs" by (rule Cons.IH)
    then show ?thesis using False by simp
  qed
qed

lemma replace_runs_fixed_dropWhile:
  assumes "replace_runs P r d = d" and "P r"
  shows "replace_runs P r (dropWhile (\<lambda>c. c = r) d) = dropWhile (\<lambda>c. c = r) d"
proof (cases d)
  case Nil
  then show ?thesis by simp
next
  case (Cons c x)
  show ?thesis
  proof (cases "c = r")
    case True
    from replace_runs_fixed_head [of P r c x] assms Cons True
    have d: "dropWhile P x = x" and f: "replace_runs P r x = x" by auto
    have "dropWhile (\<lambda>c. c = r) x = x"
    proof (cases x)
      case Nil
      then show ?thesis by simp
    next
      case (Cons a as)
      from d have "x = [] \<or> \<not> P (hd x)" by (simp only: dropWhile_id_iff)
      with Cons have "\<not> P a" by simp
      with assms(2) have "a \<noteq> r" by auto
      with Cons show ?thesis by simp
    qed
    then show ?thesis using Cons True f by simp
  next
    case False
    then show ?thesis using Cons assms(1) by simp
  qed
qed

text \<open>\<open>slugify\<close> returns a fixed point of itself, of \<open>trim\<close> and of \<open>toLowerCase\<close>.\<close>

lemma slugify_chars: "c \<in> set (slugify s) \<Longrightarrow> is_alnum c \<or> c = CHR ''-''"
proof -
  assume "c \<in> set (slugify s)"
  then have "c \<in> set (replace_runs (\<lambda>c. \<not> is_alnum c) CHR ''-'' (trim (toLowerCase s)))"
    unfolding slugify_def using set_strip_both by fastforce
  then show ?thesis using set_replace_runs [of "\<lambda>c. \<not> is_alnum c" "CHR ''-''"] by fastforce
qed

lemma toLowerCase_slugify: "toLowerCase (slugify s) = slugify s"
proof -
  have "toLowerCase_char c = c" if "c \<in> set (slugify s)" for c
    using slugify_chars [OF that] lower_alnum dash_props(3) by auto
  then show ?thesis unfolding toLowerCase_def by (simp add: map_idI)
qed

lemma trim_slugify: "trim (slugify s) = slugify s"
proof -
  have "\<not> is_space c" if "c \<in> set (slugify s)" for c
    using slugify_chars [OF that] alnum_not_space dash_props(2) by auto
  then show ?thesis unfolding trim_def by (intro strip_both_clean) auto
qed

lemma runs_slugify:
  "replace_runs (\<lambda>c. \<not> is_alnum c) CHR ''-'' (slugify s) = slugify s"
proof -
  let ?N = "\<lambda>c. \<not> is_alnum c"
  let ?d = "replace_runs ?N CHR ''-'' (trim (toLowerCase s))"
  have N: "?N CHR ''-''" by (simp add: dash_props)
  have "replace_runs ?N CHR ''-'' ?d = ?d" using N by (rule replace_runs_idem)
  then have y: "replace_runs ?N CHR ''-'' (dropWhile (\<lambda>c. c = CHR ''-'') ?d) = dropWhile (\<lambda>c. c = CHR ''-'') ?d"
    using N by (rule replace_runs_fixed_dropWhile)
  obtain r where "dropWhile (\<lambda>c. c = CHR ''-'') ?d = slugify s @ r"
    using strip_both_decomp [of "\<lambda>c. c = CHR ''-''" ?d] unfolding slugify_def by blast
  with y show ?thesis by (metis replace_runs_fixed_prefix)
qed

lemma slugify_idem: "slugify (slugify s) = slugify s"
proof -
  have "slugify (slugify s)
      = strip_both (\<lambda>c. c = CHR ''-'') (replace_runs (\<lambda>c. \<not> is_alnum c) CHR ''-'' (slugify s))"
    unfolding slugify_def [of "slugify s"] by (simp only: toLowerCase_slugify trim_slugify)
  also have "\<dots> = strip_both (\<lambda>c. c = CHR ''-'') (slugify s)" by (simp only: runs_slugify)
  also have "\<dots> = slugify s" unfolding slugify_def by (rule strip_both_idem)
  finally show ?thesis .
qed

lemma trim_idem: "trim (trim s) = trim s"
  unfolding trim_def by (rule strip_both_idem)

lemma toLowerCase_idem: "toLowerCase (toLowerCase s) = toLowerCase s"
  unfolding toLowerCase_def by (simp add: toLowerCase_char_idem)

lemma toLowerCase_trim: "toLowerCase (trim s) = trim (toLowerCase s)"
  unfolding toLowerCase_def trim_def by (rule strip_both_map) (rule is_space_lower)

subsection \<open>Coercions\<close>

lemma isInteger_of_int [simp]: "isInteger (of_int n)"
  by (simp add: isInteger_def)

lemma toInt_num [simp]: "toInt (num n) = n"
  by (simp add: toInt_def num_def)

lemma num_toInt_idem: "num (toInt (num n)) = num n"
  by simp

lemma orStr_Some: "s \<noteq> [] \<Longrightarrow> orStr (Some s) d = s"
  by (simp add: orStr_def)

lemma orStr_Some_Nil [simp]: "orStr (Some s) [] = s"
  by (simp add: orStr_def)

lemma orStr_orStr [simp]: "orStr (Some (orStr x d)) d = orStr x d"
  by (simp add: orStr_def split: option.splits)

lemma orStr_nonempty: "d \<noteq> [] \<Longrightarrow> orStr x d \<noteq> []"
  by (simp add: orStr_def split: option.splits)

lemma orStr_now: "now \<noteq> [] \<Longrightarrow> orStr (Some (orStr x now)) now' = orStr x now"
  by (simp add: orStr_def split: option.splits)

lemma orNull_idem [simp]: "orNull (orNull x) = orNull x"
  by (simp add: orNull_def split: option.splits)

lemma orNum_orNum [simp]: "orNum (Some (orNum x d)) d = orNum x d"
  by (simp add: orNum_def split: option.splits)

lemma orNum_fixed: "d \<noteq> 0 \<Longrightarrow> orNum (Some (orNum x d)) d' = orNum x d"
  by (simp add: orNum_def split: option.splits)

lemma keepIf_idem: "ok d \<Longrightarrow> keepIf ok (Some (keepIf ok x d)) d' = keepIf ok x d"
  by (simp add: keepIf_def split: option.splits)

lemma truthyNum_num [simp]: "truthyNum (num n) \<longleftrightarrow> n \<noteq> 0"
  by (simp add: truthyNum_def num_def)

lemma num_eq_Some_0 [simp]: "num n = Some 0 \<longleftrightarrow> n = 0"
  by (simp add: num_def)

lemma intOrNull_num: "intOrNull (num n) = (if n \<noteq> 0 then num n else None)"
  by (simp add: intOrNull_def)

lemma intOrNull_idem: "intOrNull x \<noteq> Some 0 \<Longrightarrow> intOrNull (intOrNull x) = intOrNull x"
proof (cases "truthyNum x")
  case True
  assume "intOrNull x \<noteq> Some 0"
  with True have "toInt x \<noteq> 0" by (simp add: intOrNull_def)
  with True show ?thesis by (simp add: intOrNull_def)
next
  case False
  then show ?thesis by (simp add: intOrNull_def truthyNum_def)
qed

lemma toBoolean_idem [simp]: "toBoolean (Some (toBoolean x)) = toBoolean x"
  by (simp add: toBoolean_def)

lemma isInteger_zero [simp]: "isInteger 0"
  by (simp add: isInteger_def)

lemma depth_idem:
  "(case Some (case d of None \<Rightarrow> 0 | Some d \<Rightarrow> if isInteger d then d else 0) of
      None \<Rightarrow> 0 | Some d \<Rightarrow> if isInteger d then d else (0::rat))
   = (case d of None \<Rightarrow> 0 | Some d \<Rightarrow> if isInteger d then d else 0)"
  by (cases d) simp_all

lemma normalizeText_idem: "normalizeText (normalizeText s) = normalizeText s"
  by (simp add: normalizeText_def toLowerCase_trim trim_idem toLowerCase_idem)

lemma digits_nonempty: "digits n \<noteq> []"
  by (subst digits.simps) simp

lemma padId_nonempty: "padId n \<noteq> []"
  by (simp add: padId_def padStart_def String_of_int_def digits_nonempty)

lemma computeReadingTime_pos: "computeReadingTime md \<noteq> 0"
  by (simp add: computeReadingTime_def Let_def)

subsection \<open>Lists\<close>

lemma map_enumerate_fixed:
  "\<forall>x\<in>set xs. \<forall>j. f j x = x \<Longrightarrow> map (\<lambda>(i, x). f i x) (enumerate n xs) = xs"
  by (induction xs arbitrary: n) auto

lemma map_fixed: "\<forall>x\<in>set xs. f x = x \<Longrightarrow> map f xs = xs"
  by (induction xs) auto

lemma filter_map_fixed:
  assumes "\<forall>y\<in>set (filter P (map f xs)). g y = y"
  shows "filter P (map g (filter P (map f xs))) = filter P (map f xs)"
proof -
  have "map g (filter P (map f xs)) = filter P (map f xs)"
    using assms by (intro map_fixed) auto
  then show ?thesis by simp
qed

subsection \<open>Users\<close>

lemma migrateUser_idem:
  assumes "now \<noteq> []"
  shows "migrateUser now' True i (migrateUser now h i u) = migrateUser now h i u"
proof -
  have r: "isRole (if \<not> h \<and> i = 0 then ''admin'' else keepIf isRole (su_role u) ''user'')"
    by (simp add: keepIf_def isRole_def ROLES_def split: option.splits)
  have st: "isUserStatus ''active''" by (simp add: isUserStatus_def USER_STATUS_def)
  note k = keepIf_idem [of isUserStatus "''active''", OF st]
  show ?thesis
    using r by (simp add: migrateUser_def trim_idem normalizeText_idem orStr_now [OF assms]
        k keepIf_def [of isRole])
qed

lemma migrateUsers_nth:
  "i < length us \<Longrightarrow> migrateUsers now us ! i
     = migrateUser now (list_ex (\<lambda>u. su_role u = Some ''admin'') us) i (us ! i)"
  by (simp add: migrateUsers_def Let_def nth_enumerate_eq)

lemma length_migrateUsers [simp]: "length (migrateUsers now us) = length us"
  by (simp add: migrateUsers_def Let_def)

lemma migrateUsers_hasAdmin:
  assumes "us \<noteq> []"
  shows "list_ex (\<lambda>u. su_role u = Some ''admin'') (migrateUsers now us)"
proof (cases "list_ex (\<lambda>u. su_role u = Some ''admin'') us")
  case True
  then obtain j where j: "j < length us" "su_role (us ! j) = Some ''admin''"
    by (auto simp: list_ex_iff in_set_conv_nth)
  then have "su_role (migrateUsers now us ! j) = Some ''admin''"
    using True by (simp add: migrateUsers_nth migrateUser_def keepIf_def isRole_def ROLES_def)
  moreover have "migrateUsers now us ! j \<in> set (migrateUsers now us)" using j by simp
  ultimately show ?thesis by (auto simp: list_ex_iff)
next
  case False
  from assms have 0: "0 < length us" by simp
  then have "su_role (migrateUsers now us ! 0) = Some ''admin''"
    using False by (simp add: migrateUsers_nth migrateUser_def)
  moreover have "migrateUsers now us ! 0 \<in> set (migrateUsers now us)" using 0 by simp
  ultimately show ?thesis by (auto simp: list_ex_iff)
qed

lemma migrateUsers_idem:
  assumes "now \<noteq> []"
  shows "migrateUsers now' (migrateUsers now us) = migrateUsers now us"
proof (cases "us = []")
  case True
  then show ?thesis by (simp add: migrateUsers_def)
next
  case False
  have "migrateUsers now' (migrateUsers now us) ! i = migrateUsers now us ! i"
    if "i < length us" for i
    using that migrateUsers_hasAdmin [OF False, of now]
    by (simp add: migrateUsers_nth [of i "migrateUsers now us"] migrateUsers_nth [of i us]
        migrateUser_idem [OF assms])
  then show ?thesis by (simp add: list_eq_iff_nth_eq)
qed

subsection \<open>Categories\<close>

lemma migrateCategory_fixed:
  assumes "orStr (sc_slug (migrateCategory i c)) [] \<noteq> []"
  shows "migrateCategory j (migrateCategory i c) = migrateCategory i c"
proof -
  let ?slug = "slugify (orStr (sc_slug c) (orStr (sc_name c) (''category-'' @ String_of_int (int i + 1))))"
  from assms have ne: "?slug \<noteq> []" by (simp add: migrateCategory_def)
  have name: "orStr (sc_name c) (''Category '' @ String_of_int (int i + 1)) \<noteq> []"
    by (rule orStr_nonempty) simp
  have ord: "orNum (sc_sort_order c) (of_int (int i + 1)) \<noteq> 0"
    by (simp add: orNum_def split: option.splits)
  show ?thesis
    using ne name ord
    by (simp add: migrateCategory_def orStr_Some slugify_idem orNum_def)
qed

lemma set_filterCategories:
  "c \<in> set (filterCategories seen cs) \<Longrightarrow> c \<in> set cs \<and> orStr (sc_slug c) [] \<noteq> []"
  by (induction cs arbitrary: seen) (auto split: if_splits)

lemma filterCategories_idem:
  "filterCategories seen (filterCategories seen cs) = filterCategories seen cs"
  by (induction cs arbitrary: seen) auto

lemma migrateCategories_idem:
  "migrateCategories (migrateCategories cs) = migrateCategories cs"
proof -
  let ?out = "migrateCategories cs"
  have "\<forall>c\<in>set ?out. \<forall>j. migrateCategory j c = c"
  proof (intro ballI allI)
    fix c j assume "c \<in> set ?out"
    then have m: "c \<in> set (map (\<lambda>(i, c). migrateCategory i c) (enumerate 0 cs))"
      and ne: "orStr (sc_slug c) [] \<noteq> []"
      using set_filterCategories unfolding migrateCategories_def by blast+
    from m obtain i c0 where "c = migrateCategory i c0" by auto
    with ne show "migrateCategory j c = c" by (simp add: migrateCategory_fixed)
  qed
  then have "map (\<lambda>(i, c). migrateCategory i c) (enumerate 0 ?out) = ?out"
    by (rule map_enumerate_fixed)
  then have "migrateCategories ?out = filterCategories {} ?out"
    by (simp add: migrateCategories_def [of ?out])
  also have "\<dots> = ?out" unfolding migrateCategories_def by (rule filterCategories_idem)
  finally show ?thesis .
qed

subsection \<open>Posts\<close>

lemma migratePost_idem:
  assumes "now \<noteq> []"
  shows "migratePost now' (migratePost now p) = migratePost now p"
  by (simp add: migratePost_def Let_def trim_idem orStr_now [OF assms] keepIf_idem
      orNum_fixed computeReadingTime_pos)

subsection \<open>Rows with foreign keys\<close>

lemma migrateLike_idem:
  "now \<noteq> [] \<Longrightarrow> migrateLike now' (migrateLike now l) = migrateLike now l"
  by (simp add: migrateLike_def orStr_now)

lemma migrateLikes_idem:
  assumes "now \<noteq> []"
  shows "migrateLikes now' (migrateLikes now ls) = migrateLikes now ls"
  unfolding migrateLikes_def
  by (rule filter_map_fixed) (auto simp: migrateLike_idem [OF assms])

lemma migratePostTags_idem: "migratePostTags (migratePostTags rs) = migratePostTags rs"
  unfolding migratePostTags_def
  by (rule filter_map_fixed) auto

lemma migrateReaction_idem:
  "now \<noteq> [] \<Longrightarrow> migrateReaction now' (migrateReaction now r) = migrateReaction now r"
  by (simp add: migrateReaction_def orStr_now keepIf_idem isReaction_def REACTIONS_def)

lemma migrateReactions_idem:
  assumes "now \<noteq> []"
  shows "migrateReactions now' (migrateReactions now rs) = migrateReactions now rs"
  unfolding migrateReactions_def
  by (rule filter_map_fixed) (auto simp: migrateReaction_idem [OF assms])

lemma migrateAction_idem:
  "now \<noteq> [] \<Longrightarrow> migrateAction now' (migrateAction now a) = migrateAction now a"
  by (simp add: migrateAction_def orStr_now orStr_Some)

lemma migrateActions_idem:
  assumes "now \<noteq> []"
  shows "migrateActions now' (migrateActions now as) = migrateActions now as"
  unfolding migrateActions_def
  by (rule filter_map_fixed) (auto simp: migrateAction_idem [OF assms])

subsection \<open>Comments\<close>

lemma sm_id_repairComment [simp]: "sm_id (repairComment seen c) = sm_id c"
  by (simp add: repairComment_def Let_def)

lemma coerceComment_fixed:
  assumes "now \<noteq> []" and "sm_parent_comment_id (repairComment seen (coerceComment now c)) \<noteq> Some 0"
  shows "coerceComment now' (repairComment seen (coerceComment now c))
         = repairComment seen (coerceComment now c)"
proof -
  define y where "y = repairComment seen (coerceComment now c)"
  have p: "intOrNull (sm_parent_comment_id y) = sm_parent_comment_id y"
  proof (cases "sm_parent_comment_id y")
    case None
    then show ?thesis by (simp add: intOrNull_def truthyNum_def)
  next
    case (Some r)
    then have "sm_parent_comment_id y = intOrNull (sm_parent_comment_id c)"
      by (simp add: y_def repairComment_def coerceComment_def Let_def split: if_splits)
    with assms(2) show ?thesis by (simp add: intOrNull_idem y_def)
  qed
  have d: "Some (case sm_depth y of None \<Rightarrow> 0 | Some d \<Rightarrow> if isInteger d then d else 0) = sm_depth y"
    by (simp add: y_def repairComment_def coerceComment_def Let_def split: option.splits)
  have q: "Some (orStr (sm_path y) []) = sm_path y"
    by (simp add: y_def repairComment_def coerceComment_def Let_def)
  have rest: "num (toInt (sm_id y)) = sm_id y" "num (toInt (sm_user_id y)) = sm_user_id y"
      "num (toInt (sm_post_id y)) = sm_post_id y" "Some (orStr (sm_body y) []) = sm_body y"
      "Some (toBoolean (sm_is_hidden y)) = sm_is_hidden y"
      "Some (orStr (sm_hidden_reason y) []) = sm_hidden_reason y"
      "Some (orStr (sm_created_at y) now') = sm_created_at y"
    by (simp_all add: y_def repairComment_def coerceComment_def Let_def orStr_now [OF assms(1)])
  have "coerceComment now' y = y"
    unfolding coerceComment_def [of now' y] p d q rest by simp
  then show ?thesis unfolding y_def .
qed

lemma repairComment_fixed:
  "repairComment seen (repairComment seen (coerceComment now c))
   = repairComment seen (coerceComment now c)"
  by (simp add: repairComment_def coerceComment_def Let_def padId_nonempty)

lemma migrateComments_idem:
  assumes "now \<noteq> []"
    and "\<forall>c\<in>set (migrateComments now cs). sm_parent_comment_id c \<noteq> Some 0"
  shows "migrateComments now' (migrateComments now cs) = migrateComments now cs"
proof -
  let ?seen = "set (map (\<lambda>c. toInt (sm_id c)) (map (coerceComment now) cs))"
  let ?out = "map (repairComment ?seen) (map (coerceComment now) cs)"
  have out: "migrateComments now cs = ?out" unfolding migrateComments_def Let_def ..
  have co: "map (coerceComment now') ?out = ?out"
  proof (rule map_fixed, rule ballI)
    fix y assume y: "y \<in> set ?out"
    then obtain c where c: "y = repairComment ?seen (coerceComment now c)" by auto
    from y assms(2) have "sm_parent_comment_id y \<noteq> Some 0" unfolding out by blast
    then show "coerceComment now' y = y"
      unfolding c using assms(1) by (intro coerceComment_fixed)
  qed
  have seen: "set (map (\<lambda>c. toInt (sm_id c)) ?out) = ?seen"
    by (simp add: comp_def)
  have re: "map (repairComment ?seen) ?out = ?out"
  proof (rule map_fixed, rule ballI)
    fix y assume "y \<in> set ?out"
    then obtain c where c: "y = repairComment ?seen (coerceComment now c)" by auto
    show "repairComment ?seen y = y" unfolding c by (rule repairComment_fixed)
  qed
  have "migrateComments now' ?out = map (repairComment ?seen) ?out"
    unfolding migrateComments_def [of now' ?out] Let_def co seen ..
  then show ?thesis unfolding out re .
qed

text \<open>After the migration every parent id other than 0 is the id of a stored comment.\<close>

lemma migrateComments_parent_present:
  assumes "y \<in> set (migrateComments now cs)" and "truthyNum (sm_parent_comment_id y)"
  shows "\<exists>p\<in>set (migrateComments now cs). sm_id p = sm_parent_comment_id y"
proof -
  let ?seen = "set (map (\<lambda>c. toInt (sm_id c)) (map (coerceComment now) cs))"
  let ?out = "map (repairComment ?seen) (map (coerceComment now) cs)"
  have out: "migrateComments now cs = ?out" unfolding migrateComments_def Let_def ..
  from assms(1) obtain c where c: "y = repairComment ?seen (coerceComment now c)"
    unfolding out by auto
  from assms(2) have nd: "toInt (sm_parent_comment_id y) \<in> ?seen"
    and par: "sm_parent_comment_id y = intOrNull (sm_parent_comment_id c)"
    unfolding c by (auto simp: repairComment_def coerceComment_def Let_def truthyNum_def
        split: if_splits)
  from nd obtain c' where c': "c' \<in> set cs"
      "toInt (sm_id (coerceComment now c')) = toInt (sm_parent_comment_id y)"
    by auto
  let ?p = "repairComment ?seen (coerceComment now c')"
  have a: "?p \<in> set ?out" using c'(1) by simp
  have "sm_id ?p = num (toInt (sm_parent_comment_id y))"
    using c'(2) by (simp add: coerceComment_def)
  also have "\<dots> = sm_parent_comment_id y"
    using assms(2) unfolding par by (cases "truthyNum (sm_parent_comment_id c)")
      (simp_all add: intOrNull_def truthyNum_def)
  finally have b: "sm_id ?p = sm_parent_comment_id y" .
  show ?thesis unfolding out using a b by blast
qed

subsection \<open>Tags\<close>

lemma migrateTag_fixed:
  assumes "now \<noteq> []" and "orStr (st_slug (migrateTag now t)) [] \<noteq> []"
  shows "migrateTag now' (migrateTag now t) = migrateTag now t"
proof -
  let ?name = "trim (orStr (st_name t) [])"
  let ?slug = "slugify (orStr (st_slug t) ?name)"
  from assms(2) have ne: "?slug \<noteq> []" by (simp add: migrateTag_def Let_def)
  have n1: "trim (orStr (Some ?name) ?slug) = orStr (Some ?name) ?slug"
    by (simp add: orStr_def trim_idem trim_slugify)
  have n2: "orStr (Some ?name) ?slug \<noteq> []" using ne by (simp add: orStr_def)
  show ?thesis
    using ne n2
    by (simp add: migrateTag_def Let_def n1 orStr_Some slugify_idem orStr_now [OF assms(1)])
qed

lemma set_filterTags:
  "t \<in> set (filterTags seen ts) \<Longrightarrow> t \<in> set ts \<and> orStr (st_slug t) [] \<noteq> []"
  by (induction ts arbitrary: seen) (auto split: if_splits)

lemma filterTags_idem: "filterTags seen (filterTags seen ts) = filterTags seen ts"
  by (induction ts arbitrary: seen) auto

lemma migrateTags_idem:
  assumes "now \<noteq> []"
  shows "migrateTags now' (migrateTags now ts) = migrateTags now ts"
proof -
  let ?out = "migrateTags now ts"
  have "\<forall>t\<in>set ?out. migrateTag now' t = t"
  proof
    fix t assume "t \<in> set ?out"
    then have m: "t \<in> set (map (migrateTag now) ts)" and ne: "orStr (st_slug t) [] \<noteq> []"
      using set_filterTags unfolding migrateTags_def by blast+
    from m obtain t0 where "t = migrateTag now t0" by auto
    with ne show "migrateTag now' t = t" using assms by (simp add: migrateTag_fixed)
  qed
  then have "map (migrateTag now') ?out = ?out" by (rule map_fixed)
  then have "migrateTags now' ?out = filterTags {} ?out"
    by (simp add: migrateTags_def [of now' ?out])
  also have "\<dots> = ?out" unfolding migrateTags_def by (rule filterTags_idem)
  finally show ?thesis .
qed

subsection \<open>Reports\<close>

lemma migrateReport_fixed:
  assumes "now \<noteq> []" and "sx_assigned_to_user_id (migrateReport now r) \<noteq> Some 0"
  shows "migrateReport now' (migrateReport now r) = migrateReport now r"
proof -
  from assms(2) have a: "intOrNull (intOrNull (sx_assigned_to_user_id r))
      = intOrNull (sx_assigned_to_user_id r)"
    by (intro intOrNull_idem) (simp add: migrateReport_def)
  have t: "isReportTarget ''post''" by (simp add: isReportTarget_def REPORT_TARGETS_def)
  have st: "isReportStatus ''open''" by (simp add: isReportStatus_def REPORT_STATUS_def)
  show ?thesis
    by (simp add: migrateReport_def a orStr_now [OF assms(1)] orStr_Some orStr_nonempty
        keepIf_idem [of isReportTarget "''post''", OF t]
        keepIf_idem [of isReportStatus "''open''", OF st])
qed

lemma migrateReports_idem:
  assumes "now \<noteq> []"
    and "\<forall>r\<in>set (migrateReports now rs). sx_assigned_to_user_id r \<noteq> Some 0"
  shows "migrateReports now' (migrateReports now rs) = migrateReports now rs"
  unfolding migrateReports_def
proof (rule filter_map_fixed, rule ballI)
  fix y
  assume y: "y \<in> set (filter (\<lambda>r. 0 < toInt (sx_id r) \<and> 0 < toInt (sx_reporter_user_id r)
                 \<and> 0 < toInt (sx_target_id r)) (map (migrateReport now) rs))"
  then obtain r where r: "y = migrateReport now r" by auto
  from y assms(2) have "sx_assigned_to_user_id y \<noteq> Some 0" unfolding migrateReports_def by blast
  then show "migrateReport now' y = y" unfolding r using assms(1) by (intro migrateReport_fixed)
qed

subsection \<open>The migration on the example snapshots\<close>

lemma padId_small:
  "padId 1 = ''0000000001''" "padId 2 = ''0000000002''" "padId 4 = ''0000000004''"
  by (simp_all add: padId_eval)

lemma floor_three_halves: "\<lfloor>(3::rat) / 2\<rfloor> = 1"
  by (rule floor_unique) simp_all

lemma toInt_values:
  "toInt None = 0" "toInt (Some 0) = 0" "toInt (Some 1) = 1" "toInt (Some 2) = 2"
  "toInt (Some 3) = 3" "toInt (Some 4) = 4" "toInt (Some (3 / 2)) = 0"
  by (simp_all add: toInt_def isInteger_def floor_three_halves)

lemma truthyNum_values:
  "\<not> truthyNum None" "\<not> truthyNum (Some 0)" "truthyNum (Some 1)" "truthyNum (Some 2)"
  "truthyNum (Some (3 / 2))"
  by (simp_all add: truthyNum_def)

lemmas migrate_eval = migrateState_def migrateComments_def coerceComment_def repairComment_def
  legacyComment_def migratedComment_def emptySnapshot_def intOrNull_def num_def orStr_def
  toBoolean_def isInteger_def Let_def toInt_values truthyNum_values padId_small padId_3
  migrateUsers_def migrateCategories_def migrateLikes_def migrateTags_def migratePostTags_def
  migrateReactions_def migrateReports_def migrateActions_def orNull_def

lemma chain_migrated:
  "n_comments (migrateState now chain_snapshot)
   = [migratedComment 1 None 0 ''0000000001'',
      migratedComment 2 (Some 1) 1 ''0000000001.0000000002'',
      migratedComment 3 (Some 2) 2 ''0000000002.0000000003'']"
  by (simp add: chain_snapshot_def migrate_eval)

lemma fraction_migrated:
  "n_comments (migrateState now fraction_snapshot)
   = [migratedComment 1 None 0 ''0000000001'', migratedComment 4 (Some 0) 1 ''0000000004'']"
  by (simp add: fraction_snapshot_def migrate_eval)

lemma fraction_migrated_twice:
  "n_comments (migrateState now' (migrateState now fraction_snapshot))
   = [migratedComment 1 None 0 ''0000000001'', migratedComment 4 None 1 ''0000000004'']"
proof -
  have "n_comments (migrateState now' (migrateState now fraction_snapshot))
      = migrateComments now' (n_comments (migrateState now fraction_snapshot))"
    by (simp add: migrateState_def)
  also have "\<dots> = [migratedComment 1 None 0 ''0000000001'', migratedComment 4 None 1 ''0000000004'']"
    unfolding fraction_migrated by (simp add: migrate_eval)
  finally show ?thesis .
qed

text \<open>A comment stored without an id leaves the migration with the id 0.\<close>

lemma idless_migrated:
  "n_comments (migrateState now idless_snapshot) = [migratedComment 0 None 0 ''0000000000'']"
proof -
  have p0: "padId 0 = ''0000000000''" by (simp add: padId_eval)
  show ?thesis by (simp add: idless_snapshot_def migrate_eval p0)
qed

subsection \<open>Repair of the comment tree\<close>

text \<open>
  Claim C4. The claim asks that a comment stored without a path receive the dot-joined
  padded ids of its whole ancestor chain. In the thread 1, 2, 3 above (3 replies to 2,
  which replies to 1) no parent is dangling and all are kept, comment 2 receives
  \<open>0000000001.0000000002\<close>, but comment 3 receives \<open>0000000002.0000000003\<close>: the
  migration joins the parent's id and the comment's own id and never looks at the
  parent's path, which would give \<open>0000000001.0000000002.0000000003\<close> as \<open>addComment\<close> does
  through \<open>buildCommentPath\<close>.
\<close>

theorem migrate_path_two_segments:
  "map sm_parent_comment_id (n_comments (migrateState now0 chain_snapshot)) = [None, Some 1, Some 2]
   \<and> map sm_path (n_comments (migrateState now0 chain_snapshot))
       = [Some ''0000000001'', Some ''0000000001.0000000002'', Some ''0000000002.0000000003'']
   \<and> buildCommentPath
        (Some \<lparr> c_id = 2, c_user_id = 2, c_post_id = 1, c_parent_comment_id = Some 1, c_depth = 1,
                c_path = ''0000000001.0000000002'', c_body = ''text'', c_is_hidden = False,
                c_hidden_reason = [], c_created_at = 0 \<rparr>) 3
       = ''0000000001.0000000002.0000000003''"
  by (simp add: chain_migrated migratedComment_def buildCommentPath_def padId_3)

subsection \<open>Running the migration twice\<close>

lemma toInt_five: "toInt (Some 5) = 5"
  by (simp add: toInt_def isInteger_def)

lemma fraction_report_migrated:
  "map sx_assigned_to_user_id (n_reports (migrateState now fraction_report_snapshot)) = [Some 0]"
  by (simp add: fraction_report_snapshot_def emptySnapshot_def migrateState_def migrateReports_def
      migrateReport_def intOrNull_def toInt_values toInt_five truthyNum_values)

lemma fraction_report_migrated_twice:
  "map sx_assigned_to_user_id
     (n_reports (migrateState now' (migrateState now fraction_report_snapshot))) = [None]"
  by (simp add: fraction_report_snapshot_def emptySnapshot_def migrateState_def migrateReports_def
      migrateReport_def intOrNull_def toInt_values toInt_five truthyNum_values)

text \<open>
  Claim C7. The claim asks that a second run of the migration return the output of the
  first unchanged. The first run turns the parent id 1.5 of comment 4 into the number 0
  (\<open>toInt\<close> of a number that is not an integer, behind the test \<open>x ? toInt(x) : null\<close>); the
  second run reads that 0 as "no parent" and stores \<open>null\<close>, as the first run does for an
  absent and for a dangling parent. The same happens to the moderator id 1.5 of a report.
  So the comments and the reports differ between the two outputs.
\<close>

theorem migrate_rerun_changes_ids:
  "map sm_parent_comment_id (n_comments (migrateState now0 fraction_snapshot)) = [None, Some 0]
   \<and> map sm_parent_comment_id
        (n_comments (migrateState now0 (migrateState now0 fraction_snapshot))) = [None, None]
   \<and> n_comments (migrateState now0 (migrateState now0 fraction_snapshot))
       \<noteq> n_comments (migrateState now0 fraction_snapshot)
   \<and> map sx_assigned_to_user_id (n_reports (migrateState now0 fraction_report_snapshot)) = [Some 0]
   \<and> map sx_assigned_to_user_id
        (n_reports (migrateState now0 (migrateState now0 fraction_report_snapshot))) = [None]"
  by (simp add: fraction_migrated fraction_migrated_twice migratedComment_def
      fraction_report_migrated fraction_report_migrated_twice)

text \<open>
  Where these two ids are not affected, the second run changes nothing of what this
  embedding covers: let the fields of the stored objects be absent or of their JSON type,
  and let \<open>nowIso()\<close> be a non-empty string. If the output of a run holds no comment whose
  \<open>parent_comment_id\<close> is the number 0 and no report whose \<open>assigned_to_user_id\<close> is the
  number 0, a second run (at any later time) returns that output.
\<close>

lemma migrate_fixed_point:
  assumes "now \<noteq> []"
    and "\<forall>c\<in>set (n_comments (migrateState now s)). sm_parent_comment_id c \<noteq> Some 0"
    and "\<forall>r\<in>set (n_reports (migrateState now s)). sx_assigned_to_user_id r \<noteq> Some 0"
  shows "migrateState now' (migrateState now s) = migrateState now s"
proof -
  from assms(2) have c: "\<forall>c\<in>set (migrateComments now (n_comments s)). sm_parent_comment_id c \<noteq> Some 0"
    by (simp add: migrateState_def)
  from assms(3) have r: "\<forall>r\<in>set (migrateReports now (n_reports s)). sx_assigned_to_user_id r \<noteq> Some 0"
    by (simp add: migrateState_def)
  note n = assms(1)
  have posts: "map (migratePost now') (map (migratePost now) (n_posts s)) = map (migratePost now) (n_posts s)"
    by (simp add: migratePost_idem [OF n])
  show ?thesis
    unfolding migrateState_def [of now' "migrateState now s"]
    unfolding migrateState_def [of now s] snapshot.select_convs
    unfolding migrateUsers_idem [OF n] migrateCategories_idem posts migrateLikes_idem [OF n]
      migrateComments_idem [OF n c] migrateTags_idem [OF n] migratePostTags_idem
      migrateReactions_idem [OF n] migrateReports_idem [OF n r] migrateActions_idem [OF n]
      orNull_idem ..
qed

lemma migrate_fixed_point_chain:
  "now0 \<noteq> []
   \<and> map sm_parent_comment_id (n_comments (migrateState now0 chain_snapshot)) = [None, Some 1, Some 2]
   \<and> n_reports (migrateState now0 chain_snapshot) = []
   \<and> migrateState ''2031-01-01T00:00:00.000Z'' (migrateState now0 chain_snapshot)
       = migrateState now0 chain_snapshot"
proof -
  have e: "now0 \<noteq> []"
    "map sm_parent_comment_id (n_comments (migrateState now0 chain_snapshot)) = [None, Some 1, Some 2]"
    "n_reports (migrateState now0 chain_snapshot) = []"
    by (simp_all add: chain_migrated migratedComment_def now0_def)
      (simp add: migrateState_def migrateReports_def chain_snapshot_def emptySnapshot_def)
  have h: "\<forall>c\<in>set (n_comments (migrateState now0 chain_snapshot)). sm_parent_comment_id c \<noteq> Some 0"
    "\<forall>r\<in>set (n_reports (migrateState now0 chain_snapshot)). sx_assigned_to_user_id r \<noteq> Some 0"
    by (simp_all add: chain_migrated migratedComment_def e(3))
  from migrate_fixed_point [OF e(1) h, of "''2031-01-01T00:00:00.000Z''"] e show ?thesis by blast
qed

subsection \<open>Dangling parents and duplicate rows\<close>

text \<open>
  A comment whose parent id is a non-zero integer that no stored comment has leaves the
  migration as a root: parent \<open>null\<close> and depth 0.
\<close>

lemma migrateComments_dangling:
  assumes "c \<in> set cs" and "truthyNum (sm_parent_comment_id c)"
    and "toInt (sm_parent_comment_id c) \<noteq> 0"
    and "toInt (sm_parent_comment_id c) \<notin> (\<lambda>c. toInt (sm_id c)) ` set cs"
  shows "\<exists>y\<in>set (migrateComments now cs).
           sm_id y = num (toInt (sm_id c)) \<and> sm_parent_comment_id y = None \<and> sm_depth y = Some 0"
proof -
  let ?seen = "set (map (\<lambda>c. toInt (sm_id c)) (map (coerceComment now) cs))"
  let ?y = "repairComment ?seen (coerceComment now c)"
  have seen: "?seen = (\<lambda>c. toInt (sm_id c)) ` set cs"
    by (auto simp: coerceComment_def image_iff)
  have par: "sm_parent_comment_id (coerceComment now c) = num (toInt (sm_parent_comment_id c))"
    using assms(2) by (simp add: coerceComment_def intOrNull_def)
  have "?y \<in> set (migrateComments now cs)"
    unfolding migrateComments_def Let_def using assms(1) by simp
  moreover have "sm_id ?y = num (toInt (sm_id c))" by (simp add: coerceComment_def)
  moreover have "sm_parent_comment_id ?y = None \<and> sm_depth ?y = Some 0"
    unfolding repairComment_def Let_def par seen using assms(3,4) by simp
  ultimately show ?thesis by blast
qed

lemma dangling_migrated:
  "n_comments (migrateState now dangling_snapshot)
   = [migratedComment 1 None 0 ''0000000001'', migratedComment 5 None 0 ''0000000005'']"
proof -
  have v: "toInt (Some 5) = 5" "toInt (Some 9) = 9" "truthyNum (Some 9)"
    by (simp_all add: toInt_def isInteger_def truthyNum_def)
  have p: "padId 5 = ''0000000005''" by (simp add: padId_eval)
  show ?thesis by (simp add: dangling_snapshot_def migrate_eval v p)
qed

text \<open>The migration keeps both like rows of one user for one post.\<close>

lemma double_like_migrated:
  "n_likes (migrateState now double_like_snapshot) = n_likes double_like_snapshot"
proof -
  have v: "toInt (Some 7) = 7" by (simp add: toInt_def isInteger_def)
  have n: "num 1 = Some 1" "num 2 = Some 2" "num 7 = Some 7" by (simp_all add: num_def)
  show ?thesis
    by (simp add: double_like_snapshot_def emptySnapshot_def migrateState_def migrateLikes_def
        migrateLike_def toInt_values v orStr_def)
      (simp add: n)
qed

end
